theory Spec2Isabelle
  imports Complex_Main "HOL-Library.Word"
begin

section \<open>Values, failures and loops\<close>

text \<open>
  A channel value is a \<^verbatim>\<open>uint8_t\<close>, a pixel a \<^verbatim>\<open>std::vector<uint8_t>\<close>, an
  accumulator cell a \<^verbatim>\<open>uint64_t\<close>. Sizes (\<^verbatim>\<open>size_t\<close>) are natural numbers below
  \<open>2 ^ 64\<close>; where the source's unsigned arithmetic can wrap, the wrap is written out.
  A \<^verbatim>\<open>double\<close> is modelled as a real number.
\<close>

type_synonym u8 = "8 word"
type_synonym u64 = "64 word"
type_synonym pixel = "u8 list"

text \<open>
  What ends a call without a result: the one exception the source throws
  (\<^verbatim>\<open>std::out_of_range\<close>, with its message), and the undefined behaviour the source can
  run into (an access outside the image or outside a vector, a division by zero, a use of the
  null image pointer).
\<close>

datatype failure =
    Thrown_out_of_range string
  | Access_outside_image
  | Access_outside_vector
  | Division_by_zero
  | Null_image_dereferenced

definition bindE :: "failure + 'a \<Rightarrow> ('a \<Rightarrow> failure + 'b) \<Rightarrow> failure + 'b" where
  "bindE r f = (case r of Inl e \<Rightarrow> Inl e | Inr x \<Rightarrow> f x)"

text \<open>\<^verbatim>\<open>for (i = ...; ...; ++i) body\<close> over the listed index values, threading the state.\<close>

fun for_each :: "nat list \<Rightarrow> (nat \<Rightarrow> 's \<Rightarrow> failure + 's) \<Rightarrow> 's \<Rightarrow> failure + 's" where
  "for_each [] body s = Inr s"
| "for_each (i # rest) body s = bindE (body i s) (for_each rest body)"

text \<open>Unsigned 64-bit subtraction and addition on sizes.\<close>

definition size_t_sub :: "nat \<Rightarrow> nat \<Rightarrow> nat" where
  "size_t_sub a b = (a + 2 ^ 64 - b mod 2 ^ 64) mod 2 ^ 64"

definition size_t_add :: "nat \<Rightarrow> nat \<Rightarrow> nat" where
  "size_t_add a b = (a + b) mod 2 ^ 64"

section \<open>UniformDistributionGenerator\<close>

text \<open>
  The engine and its distribution are the standard library's. A generator is the
  sequence of values it is going to return and the number of values drawn so far:
  \<^verbatim>\<open>operator()\<close> returns the next value and advances.
\<close>

record 'a UniformDistributionGenerator =
  sequence :: "nat \<Rightarrow> 'a"
  drawn :: nat

definition draw :: "'a UniformDistributionGenerator \<Rightarrow> 'a \<times> 'a UniformDistributionGenerator" where
  "draw g = (sequence g (drawn g), g\<lparr>drawn := Suc (drawn g)\<rparr>)"

text \<open>The default range of a real generator is \<open>[0, 1)\<close>.\<close>

definition unit_range :: "real UniformDistributionGenerator \<Rightarrow> bool" where
  "unit_range g = (\<forall>n. 0 \<le> sequence g n \<and> sequence g n < 1)"

text \<open>A generator that returns the same value at every draw.\<close>

definition constant_generator :: "'a \<Rightarrow> 'a UniformDistributionGenerator" where
  "constant_generator v = \<lparr>sequence = (\<lambda>_. v), drawn = 0\<rparr>"

section \<open>Operation\<close>

record Operation =
  probability :: real
  generator :: "real UniformDistributionGenerator"

definition operate_this_time :: "'a Operation_scheme \<Rightarrow> bool \<times> 'a Operation_scheme" where
  "operate_this_time op =
     (let (u, g) = draw (generator op) in (u \<le> probability op, op\<lparr>generator := g\<rparr>))"

definition uniform_random_number :: "'a Operation_scheme \<Rightarrow> real \<times> 'a Operation_scheme" where
  "uniform_random_number op =
     (let (u, g) = draw (generator op) in (u, op\<lparr>generator := g\<rparr>))"

definition uniform_random_number_in ::
  "real \<Rightarrow> real \<Rightarrow> 'a Operation_scheme \<Rightarrow> real \<times> 'a Operation_scheme" where
  "uniform_random_number_in lower upper op =
     (let (u, g) = draw (generator op) in ((upper - lower) * u + lower, op\<lparr>generator := g\<rparr>))"

section \<open>Image\<close>

text \<open>
  Modelled from the spec: the Image class, whose header is not among the sources. The
  spec gives it a width, a height, a pixel width (the channel count), a colour-space
  tag, a pixel read and a pixel write by \<open>(x, y)\<close>, two constructors and an in-place
  resize, with coordinates always inside \<open>[0, width) \<times> [0, height)\<close>. An access at
  other coordinates breaks that invariant and is a failure of the model. A write
  stores the given channel vector and changes nothing else.
\<close>

record Image =
  getWidth :: nat
  getHeight :: nat
  getPixelSize :: nat
  getColorSpace :: nat
  pixel_at :: "nat \<times> nat \<Rightarrow> pixel"

text \<open>
  Modelled from the spec: what the sources do not say about the Image class is a
  parameter: the pixel width and colour space the two-argument constructor chooses,
  the content of a pixel nobody has written yet, and the resampling done by
  \<^verbatim>\<open>resize(height, width)\<close>.
\<close>

record Image_class =
  default_pixel_size :: nat
  default_color_space :: nat
  unset_pixel :: "nat \<Rightarrow> pixel"
  resize :: "Image \<Rightarrow> int \<Rightarrow> int \<Rightarrow> Image"

definition Image_new :: "Image_class \<Rightarrow> nat \<Rightarrow> nat \<Rightarrow> nat \<Rightarrow> nat \<Rightarrow> Image" where
  "Image_new I w h ps cs =
     \<lparr>getWidth = w, getHeight = h, getPixelSize = ps, getColorSpace = cs,
      pixel_at = (\<lambda>_. unset_pixel I ps)\<rparr>"

definition Image_new2 :: "Image_class \<Rightarrow> nat \<Rightarrow> nat \<Rightarrow> Image" where
  "Image_new2 I w h = Image_new I w h (default_pixel_size I) (default_color_space I)"

definition getPixel :: "Image \<Rightarrow> nat \<Rightarrow> nat \<Rightarrow> failure + pixel" where
  "getPixel img x y =
     (if x < getWidth img \<and> y < getHeight img then Inr (pixel_at img (x, y))
      else Inl Access_outside_image)"

definition setPixel :: "Image \<Rightarrow> nat \<Rightarrow> nat \<Rightarrow> pixel \<Rightarrow> failure + Image" where
  "setPixel img x y p =
     (if x < getWidth img \<and> y < getHeight img
      then Inr (img\<lparr>pixel_at := (pixel_at img)((x, y) := p)\<rparr>)
      else Inl Access_outside_image)"

section \<open>Conversions between the number types of the source\<close>

text \<open>\<^verbatim>\<open>int w = image->getWidth()\<close>: a size read as a 32-bit signed integer.\<close>

definition int_of_size :: "nat \<Rightarrow> int" where
  "int_of_size n = sint (word_of_nat n :: 32 word)"

text \<open>An \<^verbatim>\<open>int\<close> or a \<^verbatim>\<open>long\<close> converted to \<^verbatim>\<open>size_t\<close>.\<close>

definition size_of_int :: "int \<Rightarrow> nat" where
  "size_of_int x = nat (x mod 2 ^ 64)"

text \<open>Integer division as C++ has it, truncating towards zero.\<close>

definition c_div :: "int \<Rightarrow> int \<Rightarrow> int" where
  "c_div a b = sgn a * sgn b * (\<bar>a\<bar> div \<bar>b\<bar>)"

text \<open>A \<^verbatim>\<open>double\<close> converted to an integer type: the fraction is dropped.\<close>

definition truncate_to_int :: "real \<Rightarrow> int" where
  "truncate_to_int v = (if 0 \<le> v then \<lfloor>v\<rfloor> else \<lceil>v\<rceil>)"

text \<open>The \<^verbatim>\<open>round\<close> of the C library: to the nearest integer, halves away from zero.\<close>

definition c_round :: "real \<Rightarrow> int" where
  "c_round v = (if 0 \<le> v then \<lfloor>v + 1/2\<rfloor> else \<lceil>v - 1/2\<rceil>)"

text \<open>\<^verbatim>\<open>std::min((size_t) std::max(y0, 0l), n - 1)\<close>: the clamp-to-edge index.\<close>

definition clamp_to_edge :: "int \<Rightarrow> nat \<Rightarrow> nat" where
  "clamp_to_edge y0 n = min (size_of_int (max y0 0)) (size_t_sub n 1)"

section \<open>The parameter records\<close>

record image_size =
  height :: nat
  width :: nat

record rotate_range =
  min_rotate :: int
  max_rotate :: int

record zoom_factor =
  min_factor :: real
  max_factor :: real

section \<open>StdoutOperation\<close>

record StdoutOperation = Operation +
  str :: string

definition StdoutOperation_perform ::
  "StdoutOperation \<Rightarrow> Image \<Rightarrow> failure + (Image option \<times> StdoutOperation)" where
  "StdoutOperation_perform op im =
     (let (fire, op) = operate_this_time op in
      if \<not> fire then Inr (None, op) else Inr (Some im, op))"

section \<open>FlipOperation\<close>

definition HORIZONTAL :: string where
  "HORIZONTAL = ''Horizontal''"

definition VERTICAL :: string where
  "VERTICAL = ''Vertical''"

definition unknown_flip_type :: string where
  "unknown_flip_type =
     ''Unknown Flip type - Choose wither '' @ [CHR 0x27] @ ''Horizontal'' @ [CHR 0x27]
       @ '' or '' @ [CHR 0x27] @ ''Vertical'' @ [CHR 0x27]"

record FlipOperation = Operation +
  type :: string

definition flip_horizontal :: "Image \<Rightarrow> failure + Image" where
  "flip_horizontal im =
     for_each [0..<getHeight im] (\<lambda>y.
       for_each [0..<getWidth im div 2] (\<lambda>x img.
         bindE (getPixel img x y) (\<lambda>left_pixels.
         bindE (getPixel img (getWidth img - x - 1) y) (\<lambda>right_pixels.
         bindE (setPixel img x y right_pixels) (\<lambda>img.
         setPixel img (getWidth img - x - 1) y left_pixels))))) im"

definition flip_vertical :: "Image \<Rightarrow> failure + Image" where
  "flip_vertical im =
     for_each [0..<getHeight im div 2] (\<lambda>y.
       for_each [0..<getWidth im] (\<lambda>x img.
         bindE (getPixel img x y) (\<lambda>top_pixels.
         bindE (getPixel img x (getHeight img - y - 1)) (\<lambda>bottom_pixels.
         bindE (setPixel img x y bottom_pixels) (\<lambda>img.
         setPixel img x (getHeight img - y - 1) top_pixels))))) im"

definition FlipOperation_perform ::
  "FlipOperation \<Rightarrow> Image \<Rightarrow> failure + (Image option \<times> FlipOperation)" where
  "FlipOperation_perform op im =
     (let (fire, op) = operate_this_time op in
      if \<not> fire then Inr (Some im, op)
      else if type op = HORIZONTAL then
        bindE (flip_horizontal im) (\<lambda>img. Inr (Some img, op))
      else if type op = VERTICAL then
        bindE (flip_vertical im) (\<lambda>img. Inr (Some img, op))
      else Inl (Thrown_out_of_range unknown_flip_type))"

section \<open>ResizeOperation\<close>

record ResizeOperation = Operation +
  lower :: image_size
  upper :: image_size

definition ResizeOperation_perform ::
  "Image_class \<Rightarrow> ResizeOperation \<Rightarrow> Image \<Rightarrow> failure + (Image option \<times> ResizeOperation)" where
  "ResizeOperation_perform I op im =
     (let (fire, op) = operate_this_time op in
      if \<not> fire then Inr (Some im, op)
      else
        let (factor, op) = uniform_random_number op;
            h = truncate_to_int
                  (real (size_t_sub (height (upper op)) (height (lower op))) * factor
                   + real (height (lower op)));
            w = truncate_to_int
                  (real (size_t_sub (width (upper op)) (width (lower op))) * factor
                   + real (width (lower op)))
        in Inr (Some (resize I im h w), op))"

section \<open>CropOperation\<close>

record CropOperation = Operation +
  crop_size :: image_size
  center :: bool

definition crop_copy :: "Image \<Rightarrow> image_size \<Rightarrow> nat \<Rightarrow> nat \<Rightarrow> Image \<Rightarrow> failure + Image" where
  "crop_copy im sz left_offset down_offset temp =
     for_each [left_offset..<size_t_add left_offset (width sz)] (\<lambda>i.
       for_each [down_offset..<size_t_add down_offset (height sz)] (\<lambda>j temp.
         bindE (getPixel im i j) (setPixel temp (i - left_offset) (j - down_offset))))
       temp"

definition CropOperation_perform ::
  "Image_class \<Rightarrow> CropOperation \<Rightarrow> Image \<Rightarrow> failure + (Image option \<times> CropOperation)" where
  "CropOperation_perform I op im =
     (let (fire, op) = operate_this_time op in
      if \<not> fire then Inr (Some im, op)
      else
        let w = int_of_size (getWidth im);
            h = int_of_size (getHeight im);
            temp = Image_new2 I (width (crop_size op)) (height (crop_size op))
        in if center op then
             let x = c_div w 2;
                 y = c_div h 2;
                 left_offset = size_t_sub (size_of_int x) (width (crop_size op) div 2);
                 down_offset = size_t_sub (size_of_int y) (height (crop_size op) div 2)
             in bindE (crop_copy im (crop_size op) left_offset down_offset temp)
                  (\<lambda>temp. Inr (Some temp, op))
           else Inr (Some temp, op))"

section \<open>ZoomOperation\<close>

record ZoomOperation = Operation +
  zoom_range :: zoom_factor

text \<open>
  The crop that ends a zoom is a new CropOperation with probability 1 and the null
  seed, so its generator is seeded from the clock: the values it is going to return
  are an argument, \<open>crop_generator\<close>.
\<close>

definition ZoomOperation_perform ::
  "Image_class \<Rightarrow> real UniformDistributionGenerator \<Rightarrow> ZoomOperation \<Rightarrow> Image
     \<Rightarrow> failure + (Image option \<times> ZoomOperation)" where
  "ZoomOperation_perform I crop_generator op im =
     (let (fire, op) = operate_this_time op in
      if \<not> fire then Inr (Some im, op)
      else
        let (drawn_level, op) =
              uniform_random_number_in (min_factor (zoom_range op))
                (max_factor (zoom_range op)) op;
            zoom_level = real_of_int (truncate_to_int (drawn_level * 10)) / 10;
            w = int_of_size (getWidth im);
            h = int_of_size (getHeight im);
            w_zoomed = truncate_to_int (real_of_int w * zoom_level);
            h_zoomed = truncate_to_int (real_of_int h * zoom_level);
            im = resize I im h_zoomed w_zoomed;
            operation = \<lparr>probability = 1, generator = crop_generator,
                         crop_size = \<lparr>height = size_of_int h, width = size_of_int w\<rparr>,
                         center = True\<rparr>
        in bindE (CropOperation_perform I operation im) (\<lambda>(result, _). Inr (result, op)))"

section \<open>RotateOperation\<close>

definition PI :: real where
  "PI = 3.14159"

record RotateOperation = Operation +
  rotation_range :: rotate_range

text \<open>The source coordinates of destination pixel \<open>(x, y)\<close>.\<close>

definition rotate_source :: "real \<Rightarrow> int \<Rightarrow> int \<Rightarrow> nat \<Rightarrow> nat \<Rightarrow> int \<times> int" where
  "rotate_source angle hwidth hheight x y =
     (let xt = int x - hwidth;
          yt = int y - hheight;
          xs = c_round ((cos angle * real_of_int xt - sin angle * real_of_int yt)
                        + real_of_int hwidth);
          ys = c_round ((sin angle * real_of_int xt + cos angle * real_of_int yt)
                        + real_of_int hheight)
      in (xs, ys))"

definition rotate_copy :: "Image \<Rightarrow> real \<Rightarrow> int \<Rightarrow> int \<Rightarrow> Image \<Rightarrow> failure + Image" where
  "rotate_copy im angle w h temp =
     for_each [0..<nat w] (\<lambda>x.
       for_each [0..<nat h] (\<lambda>y temp.
         let (xs, ys) = rotate_source angle (c_div w 2) (c_div h 2) x y in
         if xs \<ge> 0 \<and> xs < w \<and> ys \<ge> 0 \<and> ys < h
         then bindE (getPixel im (size_of_int xs) (size_of_int ys)) (setPixel temp x y)
         else Inr temp)) temp"

definition RotateOperation_perform ::
  "Image_class \<Rightarrow> RotateOperation \<Rightarrow> Image \<Rightarrow> failure + (Image option \<times> RotateOperation)" where
  "RotateOperation_perform I op im =
     (let (fire, op) = operate_this_time op in
      if \<not> fire then Inr (Some im, op)
      else
        let (rotate_degree, op) =
              uniform_random_number_in (real_of_int (min_rotate (rotation_range op)))
                (real_of_int (max_rotate (rotation_range op))) op;
            w = int_of_size (getWidth im);
            h = int_of_size (getHeight im);
            temp = Image_new2 I (size_of_int w) (size_of_int h);
            angle = rotate_degree * PI / 180
        in bindE (rotate_copy im angle w h temp) (\<lambda>temp. Inr (Some temp, op)))"

section \<open>InvertOperation\<close>

definition invert_pixels :: "Image \<Rightarrow> failure + Image" where
  "invert_pixels im =
     for_each [0..<getHeight im] (\<lambda>y.
       for_each [0..<getWidth im] (\<lambda>x img.
         bindE (getPixel img x y) (\<lambda>pixels.
         setPixel img x y (map (\<lambda>p. 255 - p) pixels)))) im"

definition InvertOperation_perform ::
  "Operation \<Rightarrow> Image \<Rightarrow> failure + (Image option \<times> Operation)" where
  "InvertOperation_perform op im =
     (let (fire, op) = operate_this_time op in
      if \<not> fire then Inr (Some im, op)
      else bindE (invert_pixels im) (\<lambda>img. Inr (Some img, op)))"

section \<open>GaussianBlurOperation\<close>

text \<open>
  Modelled from the spec: the filter of filters.h, which is not among the sources, is
  the ordered sequence of its weights (\<^verbatim>\<open>filter.size()\<close> its length, \<^verbatim>\<open>filter[k]\<close> its
  \<open>k\<close>-th weight).
\<close>

record GaussianBlurOperation = Operation +
  gaussian_filter :: "real list"

definition convert2pixel :: "real list \<Rightarrow> pixel" where
  "convert2pixel src = map (\<lambda>v. word_of_int (truncate_to_int v)) src"

text \<open>\<^verbatim>\<open>val[p] += pixel[p] * filter[k]\<close> for every channel \<open>p\<close> below the pixel size.\<close>

definition add_weighted :: "real list \<Rightarrow> pixel \<Rightarrow> real \<Rightarrow> failure + real list" where
  "add_weighted val px weight =
     (if length px < length val then Inl Access_outside_vector
      else Inr (map (\<lambda>(v, c). v + real (unat c) * weight) (zip val px)))"

text \<open>
  One output pixel: the taps at \<open>start, start + 1, ...\<close> along a line of length \<open>n\<close>,
  clamped to the edge, read through \<open>read\<close>.
\<close>

definition convolve_at ::
  "real list \<Rightarrow> nat \<Rightarrow> (nat \<Rightarrow> failure + pixel) \<Rightarrow> nat \<Rightarrow> int \<Rightarrow> failure + pixel" where
  "convolve_at weights pixel_size read n start =
     bindE (for_each [0..<length weights] (\<lambda>k (x0, val).
              bindE (read (clamp_to_edge x0 n)) (\<lambda>px.
              bindE (add_weighted val px (weights ! k)) (\<lambda>val.
              Inr (x0 + 1, val))))
            (start, replicate pixel_size 0))
       (\<lambda>(_, val). Inr (convert2pixel val))"

text \<open>
  The first pass fills \<open>transient\<close>; the second pass reads the image it is writing,
  not \<open>transient\<close>.
\<close>

definition gaussian_passes :: "Image_class \<Rightarrow> real list \<Rightarrow> Image \<Rightarrow> failure + Image" where
  "gaussian_passes I weights im =
     (let kernel_size = length weights;
          transient = Image_new I (getWidth im) (getHeight im) (getPixelSize im)
                        (getColorSpace im);
          pixel_size = getPixelSize im
      in bindE
           (for_each [0..<getWidth im] (\<lambda>i.
              for_each [0..<getHeight im] (\<lambda>j transient.
                bindE (convolve_at weights pixel_size (\<lambda>x. getPixel im x j) (getWidth im)
                         (int i - int (kernel_size div 2)))
                  (setPixel transient i j))) transient)
           (\<lambda>_.
            for_each [0..<getWidth im] (\<lambda>i.
              for_each [0..<getHeight im] (\<lambda>j img.
                bindE (convolve_at weights pixel_size (\<lambda>y. getPixel img i y) (getHeight img)
                         (int j - int (kernel_size div 2)))
                  (setPixel img i j))) im))"

definition GaussianBlurOperation_perform ::
  "Image_class \<Rightarrow> GaussianBlurOperation \<Rightarrow> Image
     \<Rightarrow> failure + (Image option \<times> GaussianBlurOperation)" where
  "GaussianBlurOperation_perform I op im =
     (let (fire, op) = operate_this_time op in
      if \<not> fire then Inr (Some im, op)
      else bindE (gaussian_passes I (gaussian_filter op) im) (\<lambda>img. Inr (Some img, op)))"

section \<open>accumulator\<close>

type_synonym accumulator = "u64 list"

definition accumulator_new :: "nat \<Rightarrow> accumulator" where
  "accumulator_new n = replicate n 0"

text \<open>
  Each method runs over \<^verbatim>\<open>values.size()\<close> cells and reads the same index of every
  argument; an argument shorter than that is read outside its storage.
\<close>

definition accumulator_add :: "accumulator \<Rightarrow> pixel \<Rightarrow> failure + accumulator" where
  "accumulator_add values val =
     (if length val < length values then Inl Access_outside_vector
      else Inr (map (\<lambda>(a, v). a + ucast v) (zip values val)))"

definition accumulator_shift :: "accumulator \<Rightarrow> pixel \<Rightarrow> pixel \<Rightarrow> failure + accumulator" where
  "accumulator_shift values del add =
     (if length del < length values \<or> length add < length values
      then Inl Access_outside_vector
      else Inr (map (\<lambda>(a, d, v). a + ucast v - ucast d) (zip values (zip del add))))"

definition accumulator_div :: "accumulator \<Rightarrow> u64 \<Rightarrow> failure + pixel" where
  "accumulator_div values denominator =
     (if values \<noteq> [] \<and> denominator = 0 then Inl Division_by_zero
      else Inr (map (\<lambda>a. ucast (a div denominator)) values))"

section \<open>BoxBlurOperation\<close>

text \<open>
  Modelled from the spec: of the box filter of filters.h, which is not among the
  sources, perform reads the length only.
\<close>

record box_blur_filter_1D =
  filter_length :: nat

record BoxBlurOperation = Operation +
  box_filter :: box_blur_filter_1D

text \<open>
  The two passes of perform have the same body, once down a column and once along a
  row: \<open>read\<close> is the pixel read of the pass, \<open>write\<close> its pixel write, \<open>n\<close> the extent
  of the axis. The first loop fills the accumulator with the window of position 0,
  the second slides it.
\<close>

definition box_blur_line ::
  "nat \<Rightarrow> nat \<Rightarrow> nat \<Rightarrow> (nat \<Rightarrow> failure + pixel) \<Rightarrow> (nat \<Rightarrow> pixel \<Rightarrow> Image \<Rightarrow> failure + Image)
     \<Rightarrow> Image \<Rightarrow> failure + Image" where
  "box_blur_line len pixel_size n read write target =
     bindE
       (for_each [0..<len] (\<lambda>k (y0, acc, target).
          bindE (read (clamp_to_edge y0 n)) (\<lambda>px.
          bindE (accumulator_add acc px) (\<lambda>acc.
          bindE (accumulator_div acc (word_of_nat len)) (\<lambda>q.
          bindE (write 0 q target) (\<lambda>target.
          Inr (y0 + 1, acc, target))))))
        (- int (len div 2), accumulator_new pixel_size, target))
       (\<lambda>(_, acc, target).
          bindE
            (for_each [1..<n] (\<lambda>j (y_del, y_add, acc, target).
               let prev = size_of_int (max y_del 0);
                   next = min y_add (size_t_sub n 1)
               in bindE (read prev) (\<lambda>del.
                  bindE (read next) (\<lambda>add.
                  bindE (accumulator_shift acc del add) (\<lambda>acc.
                  bindE (accumulator_div acc (word_of_nat len)) (\<lambda>q.
                  bindE (write j q target) (\<lambda>target.
                  Inr (y_del + 1, y_add + 1, acc, target)))))))
             (- int (len div 2), len div 2 + 1, acc, target))
            (\<lambda>(_, _, _, target). Inr target))"

definition box_blur_passes :: "Image_class \<Rightarrow> nat \<Rightarrow> Image \<Rightarrow> failure + Image" where
  "box_blur_passes I len im =
     (let transient = Image_new I (getWidth im) (getHeight im) (getPixelSize im)
                        (getColorSpace im);
          pixel_size = getPixelSize im
      in bindE
           (for_each [0..<getWidth im] (\<lambda>i.
              box_blur_line len pixel_size (getHeight im) (\<lambda>y. getPixel im i y)
                (\<lambda>j q transient. setPixel transient i j q)) transient)
           (\<lambda>transient.
            for_each [0..<getHeight im] (\<lambda>j.
              box_blur_line len pixel_size (getWidth im) (\<lambda>x. getPixel transient x j)
                (\<lambda>i q img. setPixel img i j q)) im))"

definition BoxBlurOperation_perform ::
  "Image_class \<Rightarrow> BoxBlurOperation \<Rightarrow> Image \<Rightarrow> failure + (Image option \<times> BoxBlurOperation)" where
  "BoxBlurOperation_perform I op im =
     (let (fire, op) = operate_this_time op in
      if \<not> fire then Inr (Some im, op)
      else bindE (box_blur_passes I (filter_length (box_filter op)) im)
             (\<lambda>img. Inr (Some img, op)))"

section \<open>The direct box convolution\<close>

text \<open>
  The reference of the equivalence contract, written from the spec's words: the
  separable convolution with an all-ones kernel of length \<open>k\<close>, the window starting
  \<open>k div 2\<close> before the output position as in the direct convolution of the Gaussian
  blur, every tap clamped to the edge, the sum (in unbounded integers) divided by \<open>k\<close>
  with truncation; first down the columns into a transient buffer, then along the rows
  of the transient.
\<close>

definition direct_box_at :: "nat \<Rightarrow> nat \<Rightarrow> (nat \<Rightarrow> pixel) \<Rightarrow> nat \<Rightarrow> nat \<Rightarrow> pixel" where
  "direct_box_at k pixel_size line n pos =
     map (\<lambda>c. word_of_nat
            ((\<Sum>t\<leftarrow>[0..<k]. unat (line (clamp_to_edge (int pos - int (k div 2) + int t) n) ! c))
             div k))
       [0..<pixel_size]"

definition direct_box_blur :: "nat \<Rightarrow> Image \<Rightarrow> Image" where
  "direct_box_blur k im =
     (let transient = (\<lambda>(x, y). direct_box_at k (getPixelSize im) (\<lambda>y'. pixel_at im (x, y'))
                                  (getHeight im) y)
      in im\<lparr>pixel_at := (\<lambda>(x, y).
              if x < getWidth im \<and> y < getHeight im
              then direct_box_at k (getPixelSize im) (\<lambda>x'. transient (x', y)) (getWidth im) x
              else pixel_at im (x, y))\<rparr>)"

section \<open>FastGaussianBlurOperation\<close>

record FastGaussianBlurOperation = Operation +
  box_blur_operations :: "BoxBlurOperation list"

text \<open>
  The loop takes a copy of each box blur operation, so the state the copy's gate
  check leaves behind is dropped.
\<close>

fun box_blur_sequence :: "Image_class \<Rightarrow> BoxBlurOperation list \<Rightarrow> Image \<Rightarrow> failure + Image" where
  "box_blur_sequence I [] im = Inr im"
| "box_blur_sequence I (operation # rest) im =
     bindE (BoxBlurOperation_perform I operation im) (\<lambda>(result, _).
       case result of
         Some img \<Rightarrow> box_blur_sequence I rest img
       | None \<Rightarrow> Inl Null_image_dereferenced)"

definition FastGaussianBlurOperation_perform ::
  "Image_class \<Rightarrow> FastGaussianBlurOperation \<Rightarrow> Image
     \<Rightarrow> failure + (Image option \<times> FastGaussianBlurOperation)" where
  "FastGaussianBlurOperation_perform I op im =
     (let (fire, op) = operate_this_time op in
      if \<not> fire then Inr (Some im, op)
      else bindE (box_blur_sequence I (box_blur_operations op) im)
             (\<lambda>img. Inr (Some img, op)))"

section \<open>RandomEraseOperation\<close>

record RandomEraseOperation = Operation +
  xy_generator :: "nat UniformDistributionGenerator"
  noise_generator :: "u8 UniformDistributionGenerator"
  lower_mask_size :: image_size
  upper_mask_size :: image_size

text \<open>\<^verbatim>\<open>a % b\<close> on sizes.\<close>

definition size_t_mod :: "nat \<Rightarrow> nat \<Rightarrow> failure + nat" where
  "size_t_mod a b = (if b = 0 then Inl Division_by_zero else Inr (a mod b))"

text \<open>
  \<^verbatim>\<open>(size_t) ((upper - lower) * factor) + lower\<close>: the difference is taken in sizes, the
  product in reals, and its integer part is added to the lower bound.
\<close>

definition interpolate_size :: "nat \<Rightarrow> nat \<Rightarrow> real \<Rightarrow> nat" where
  "interpolate_size lo hi factor =
     size_t_add (size_of_int (truncate_to_int (real (size_t_sub hi lo) * factor))) lo"

text \<open>The innermost loop: one fresh noise value for every channel of \<open>new_pixel\<close>.\<close>

definition draw_noise_pixel ::
  "nat \<Rightarrow> u8 UniformDistributionGenerator \<times> pixel
     \<Rightarrow> failure + (u8 UniformDistributionGenerator \<times> pixel)" where
  "draw_noise_pixel pixel_size =
     for_each [0..<pixel_size] (\<lambda>k (noise, new_pixel).
       let (v, noise) = draw noise in
       if k < length new_pixel then Inr (noise, new_pixel[k := v])
       else Inl Access_outside_vector)"

definition erase_rectangle ::
  "nat \<Rightarrow> nat \<Rightarrow> image_size \<Rightarrow> u8 UniformDistributionGenerator \<Rightarrow> Image
     \<Rightarrow> failure + (u8 UniformDistributionGenerator \<times> pixel \<times> Image)" where
  "erase_rectangle left' top' erase_size noise im =
     for_each [left'..<size_t_add left' (width erase_size)] (\<lambda>i.
       for_each [top'..<size_t_add top' (height erase_size)] (\<lambda>j (noise, new_pixel, img).
         bindE (draw_noise_pixel (getPixelSize img) (noise, new_pixel)) (\<lambda>(noise, new_pixel).
         bindE (setPixel img i j new_pixel) (\<lambda>img.
         Inr (noise, new_pixel, img)))))
       (noise, replicate (getPixelSize im) 0, im)"

definition RandomEraseOperation_perform ::
  "RandomEraseOperation \<Rightarrow> Image \<Rightarrow> failure + (Image option \<times> RandomEraseOperation)" where
  "RandomEraseOperation_perform op im =
     (let (fire, op) = operate_this_time op in
      if \<not> fire then Inr (Some im, op)
      else
        let lower_erase_size =
              \<lparr>height = min (getHeight im) (height (lower_mask_size op)),
               width = min (getWidth im) (width (lower_mask_size op))\<rparr>;
            upper_erase_size =
              \<lparr>height = min (getHeight im) (height (upper_mask_size op)),
               width = min (getWidth im) (width (upper_mask_size op))\<rparr>;
            (factor, op) = uniform_random_number op;
            erase_size =
              \<lparr>height = interpolate_size (height lower_erase_size) (height upper_erase_size)
                          factor,
               width = interpolate_size (width lower_erase_size) (width upper_erase_size)
                         factor\<rparr>;
            (top_draw, xy) = draw (xy_generator op);
            (left_draw, xy) = draw xy
        in bindE (size_t_mod top_draw
                    (size_t_add (size_t_sub (getHeight im) (height erase_size)) 1)) (\<lambda>top'.
           bindE (size_t_mod left_draw
                    (size_t_add (size_t_sub (getWidth im) (width erase_size)) 1)) (\<lambda>left'.
           bindE (erase_rectangle left' top' erase_size (noise_generator op) im)
             (\<lambda>(noise, _, img).
                Inr (Some img, op\<lparr>xy_generator := xy, noise_generator := noise\<rparr>)))))"

section \<open>States of the loops and concrete inputs\<close>

text \<open>
  The image of the invert loop when it stands at row \<open>y\<close>, column \<open>x\<close>: the pixels of
  the rows before \<open>y\<close>, and of row \<open>y\<close> before column \<open>x\<close>, are inverted.
\<close>

definition inverted_upto :: "Image \<Rightarrow> nat \<Rightarrow> nat \<Rightarrow> Image" where
  "inverted_upto im y x =
     im\<lparr>pixel_at := (\<lambda>(x', y').
          if x' < getWidth im \<and> (y' < y \<or> (y' = y \<and> x' < x))
          then map (\<lambda>p. 255 - p) (pixel_at im (x', y'))
          else pixel_at im (x', y'))\<rparr>"

text \<open>
  An Image class for the concrete inputs: one channel by default, unwritten pixels
  zero, and a resize that only sets the dimensions.
\<close>

definition example_class :: Image_class where
  "example_class =
     \<lparr>default_pixel_size = 1, default_color_space = 0,
      unset_pixel = (\<lambda>pixel_size. replicate pixel_size 0),
      resize = (\<lambda>im h w. im\<lparr>getWidth := nat w, getHeight := nat h\<rparr>)\<rparr>"

text \<open>The image of the given width, height and pixel size whose channels all hold \<open>c\<close>.\<close>

definition constant_image :: "nat \<Rightarrow> nat \<Rightarrow> nat \<Rightarrow> u8 \<Rightarrow> Image" where
  "constant_image w h pixel_size c =
     \<lparr>getWidth = w, getHeight = h, getPixelSize = pixel_size, getColorSpace = 0,
      pixel_at = (\<lambda>_. replicate pixel_size c)\<rparr>"

text \<open>
  The temporary of the rotate loops when they stand at column \<open>x\<close>, row \<open>y\<close>: the
  destination pixels already visited whose source coordinates are inside the image
  hold the source pixel, every other pixel is as it was in \<open>temp\<close>.
\<close>

definition rotated_upto :: "Image \<Rightarrow> real \<Rightarrow> int \<Rightarrow> int \<Rightarrow> Image \<Rightarrow> nat \<Rightarrow> nat \<Rightarrow> Image" where
  "rotated_upto im angle w h temp x y =
     temp\<lparr>pixel_at := (\<lambda>(x', y').
          let (xs, ys) = rotate_source angle (c_div w 2) (c_div h 2) x' y' in
          if (x' < x \<or> (x' = x \<and> y' < y)) \<and> y' < nat h
             \<and> xs \<ge> 0 \<and> xs < w \<and> ys \<ge> 0 \<and> ys < h
          then pixel_at im (size_of_int xs, size_of_int ys)
          else pixel_at temp (x', y'))\<rparr>"

text \<open>A rotation whose gate always fires and whose range is the single angle 0.\<close>

definition zero_rotation :: RotateOperation where
  "zero_rotation =
     \<lparr>probability = 1, generator = constant_generator (1/2),
      rotation_range = \<lparr>min_rotate = 0, max_rotate = 0\<rparr>\<rparr>"

text \<open>
  The \<open>n\<close>-th pixel drawn from a noise generator, counted from its present state:
  one value of its sequence for every channel.
\<close>

definition noise_pixel :: "u8 UniformDistributionGenerator \<Rightarrow> nat \<Rightarrow> nat \<Rightarrow> pixel" where
  "noise_pixel noise pixel_size n =
     map (\<lambda>k. sequence noise (drawn noise + n * pixel_size + k)) [0..<pixel_size]"

text \<open>
  The state of the erase loops when they stand at column \<open>i\<close>, row \<open>j\<close>: the noise
  generator has given one pixel for every cell visited, \<open>new_pixel\<close> holds the last of
  them, and the cells visited hold their noise pixels.
\<close>

definition erased_upto ::
  "nat \<Rightarrow> nat \<Rightarrow> image_size \<Rightarrow> u8 UniformDistributionGenerator \<Rightarrow> Image \<Rightarrow> nat \<Rightarrow> nat
     \<Rightarrow> u8 UniformDistributionGenerator \<times> pixel \<times> Image" where
  "erased_upto left' top' sz noise im i j =
     (let n = (i - left') * height sz + (j - top') in
      (noise\<lparr>drawn := drawn noise + n * getPixelSize im\<rparr>,
       (if n = 0 then replicate (getPixelSize im) 0
        else noise_pixel noise (getPixelSize im) (n - 1)),
       im\<lparr>pixel_at := (\<lambda>(x, y).
            if left' \<le> x \<and> top' \<le> y \<and> y < top' + height sz \<and> (x < i \<or> (x = i \<and> y < j))
            then noise_pixel noise (getPixelSize im) ((x - left') * height sz + (y - top'))
            else pixel_at im (x, y))\<rparr>))"

text \<open>
  A random erase whose gate always fires, with both mask sizes 2 by 2, every offset
  draw 5 and every noise value 9.
\<close>

definition erase_twos :: RandomEraseOperation where
  "erase_twos =
     \<lparr>probability = 1, generator = constant_generator (1/2),
      xy_generator = constant_generator 5, noise_generator = constant_generator 9,
      lower_mask_size = \<lparr>height = 2, width = 2\<rparr>,
      upper_mask_size = \<lparr>height = 2, width = 2\<rparr>\<rparr>"

text \<open>
  The accumulator of a box blur line after \<open>m\<close> iterations of its first loop: for every
  channel the sum of the first \<open>m\<close> taps of the window of position 0.
\<close>

definition window_start :: "nat \<Rightarrow> nat \<Rightarrow> (nat \<Rightarrow> pixel) \<Rightarrow> nat \<Rightarrow> nat \<Rightarrow> accumulator" where
  "window_start len pixel_size line n m =
     map (\<lambda>c. \<Sum>t\<leftarrow>[0..<m]. ucast (line (clamp_to_edge (int t - int (len div 2)) n) ! c))
       [0..<pixel_size]"

text \<open>
  The accumulator when the second loop has produced position \<open>j\<close>: the first window,
  then one pixel added and one removed per step, at the indices the loop computes.
\<close>

fun sliding_sums :: "nat \<Rightarrow> nat \<Rightarrow> (nat \<Rightarrow> pixel) \<Rightarrow> nat \<Rightarrow> nat \<Rightarrow> accumulator" where
  "sliding_sums len pixel_size line n 0 = window_start len pixel_size line n len"
| "sliding_sums len pixel_size line n (Suc j) =
     map (\<lambda>(a, d, v). a + ucast v - ucast d)
       (zip (sliding_sums len pixel_size line n j)
          (zip (line (size_of_int (max (int j - int (len div 2)) 0)))
               (line (min (len div 2 + 1 + j) (size_t_sub n 1)))))"

text \<open>The pixel a box blur line writes at position \<open>j\<close>.\<close>

definition sliding_output :: "nat \<Rightarrow> nat \<Rightarrow> (nat \<Rightarrow> pixel) \<Rightarrow> nat \<Rightarrow> nat \<Rightarrow> pixel" where
  "sliding_output len pixel_size line n j =
     map (\<lambda>a. ucast (a div word_of_nat len)) (sliding_sums len pixel_size line n j)"

text \<open>The target of a line after the outputs of the positions below \<open>m\<close> are written.\<close>

primrec written_upto :: "(nat \<Rightarrow> nat \<times> nat) \<Rightarrow> (nat \<Rightarrow> pixel) \<Rightarrow> Image \<Rightarrow> nat \<Rightarrow> Image" where
  "written_upto pos out target 0 = target"
| "written_upto pos out target (Suc m) =
     (written_upto pos out target m)
       \<lparr>pixel_at := (pixel_at (written_upto pos out target m))(pos m := out m)\<rparr>"

text \<open>
  The transient buffer after the columns below \<open>i\<close>, and the image after the rows
  below \<open>j\<close>, of the two passes of the box blur.
\<close>

definition columns_blurred :: "nat \<Rightarrow> Image \<Rightarrow> Image \<Rightarrow> nat \<Rightarrow> Image" where
  "columns_blurred len im transient i =
     transient\<lparr>pixel_at := (\<lambda>(x, y).
          if x < i \<and> y < getHeight im
          then sliding_output len (getPixelSize im) (\<lambda>y'. pixel_at im (x, y')) (getHeight im) y
          else pixel_at transient (x, y))\<rparr>"

definition rows_blurred :: "nat \<Rightarrow> Image \<Rightarrow> Image \<Rightarrow> nat \<Rightarrow> Image" where
  "rows_blurred len transient im j =
     im\<lparr>pixel_at := (\<lambda>(x, y).
          if y < j \<and> x < getWidth im
          then sliding_output len (getPixelSize im) (\<lambda>x'. pixel_at transient (x', y))
                 (getWidth im) x
          else pixel_at im (x, y))\<rparr>"

text \<open>A box blur of length 3 whose gate always fires.\<close>

definition box_blur_3 :: BoxBlurOperation where
  "box_blur_3 =
     \<lparr>probability = 1, generator = constant_generator (1/2),
      box_filter = \<lparr>filter_length = 3\<rparr>\<rparr>"

text \<open>A one-channel column of three pixels, 0, 0 and 200 from the top.\<close>

definition step_column :: Image where
  "step_column =
     \<lparr>getWidth = 1, getHeight = 3, getPixelSize = 1, getColorSpace = 0,
      pixel_at = (\<lambda>p. if p = (0, 2) then [200] else [0])\<rparr>"

text \<open>An operation base whose gate never fires, and one whose gate always fires.\<close>

definition skipping :: Operation where
  "skipping = \<lparr>probability = 0, generator = constant_generator (1/2)\<rparr>"

definition firing :: Operation where
  "firing = \<lparr>probability = 1, generator = constant_generator (1/2)\<rparr>"

section \<open>Failures and loops\<close>

lemma bindE_simps [simp]: "bindE (Inr x) f = f x" "bindE (Inl e) f = Inl e"
  by (simp_all add: bindE_def)

lemma for_each_append:
  "for_each (xs @ ys) body s = bindE (for_each xs body s) (for_each ys body)"
  by (induction xs arbitrary: s) (auto simp: bindE_def split: sum.splits)

text \<open>
  A loop whose state after the iterations below \<open>i\<close> is \<open>F i\<close> ends in \<open>F b\<close>.
\<close>

lemma for_each_steps:
  assumes "a \<le> b"
    and "\<And>i. a \<le> i \<Longrightarrow> i < b \<Longrightarrow> body i (F i) = Inr (F (Suc i))"
  shows "for_each [a..<b] body (F a) = Inr (F b)"
  using assms
proof (induction b)
  case 0
  then show ?case by simp
next
  case (Suc b)
  show ?case
  proof (cases "a = Suc b")
    case True
    then show ?thesis by simp
  next
    case False
    with Suc.prems have le: "a \<le> b" by simp
    have "for_each [a..<b] body (F a) = Inr (F b)"
      using Suc.IH [OF le] Suc.prems(2) by simp
    then show ?thesis
      using Suc.prems(2) [of b] le by (simp add: for_each_append)
  qed
qed

lemma pixel_at_update_cong:
  "(\<And>p. f p = g p) \<Longrightarrow> im\<lparr>pixel_at := f\<rparr> = im\<lparr>pixel_at := g\<rparr>"
  by (simp add: fun_eq_iff)

section \<open>The gate\<close>

lemma draw_advances: "drawn (snd (draw g)) = Suc (drawn g)"
  by (simp add: draw_def)




lemma gate_state: "snd (operate_this_time op) = op\<lparr>generator := snd (draw (generator op))\<rparr>"
  by (simp add: operate_this_time_def split_beta)

lemma skipping_gate: "\<not> fst (operate_this_time (Operation.extend skipping e))"
  by (simp add: operate_this_time_def draw_def skipping_def constant_generator_def
      Operation.extend_def)

lemma skipping_base_gate: "\<not> fst (operate_this_time skipping)"
  by (simp add: operate_this_time_def draw_def skipping_def constant_generator_def)

lemma firing_base_gate: "fst (operate_this_time firing)"
  by (simp add: operate_this_time_def draw_def firing_def constant_generator_def)

lemma firing_gate: "fst (operate_this_time (Operation.extend firing e))"
  by (simp add: operate_this_time_def draw_def firing_def constant_generator_def
      Operation.extend_def)

section \<open>The skip outcome\<close>

text \<open>
  C2 (as the code has it). When the gate fails, every operation but StdoutOperation
  returns the image it was given, unchanged; StdoutOperation returns the null pointer,
  which the comment on the base class's perform announces for an operation that did
  not occur.
\<close>

theorem skip_outcome:
  "(\<not> fst (operate_this_time stdout_op) \<longrightarrow>
      StdoutOperation_perform stdout_op im = Inr (None, snd (operate_this_time stdout_op)))
   \<and> (\<not> fst (operate_this_time resize_op) \<longrightarrow>
      ResizeOperation_perform I resize_op im = Inr (Some im, snd (operate_this_time resize_op)))
   \<and> (\<not> fst (operate_this_time crop_op) \<longrightarrow>
      CropOperation_perform I crop_op im = Inr (Some im, snd (operate_this_time crop_op)))
   \<and> (\<not> fst (operate_this_time zoom_op) \<longrightarrow>
      ZoomOperation_perform I g zoom_op im = Inr (Some im, snd (operate_this_time zoom_op)))
   \<and> (\<not> fst (operate_this_time rotate_op) \<longrightarrow>
      RotateOperation_perform I rotate_op im = Inr (Some im, snd (operate_this_time rotate_op)))
   \<and> (\<not> fst (operate_this_time flip_op) \<longrightarrow>
      FlipOperation_perform flip_op im = Inr (Some im, snd (operate_this_time flip_op)))
   \<and> (\<not> fst (operate_this_time invert_op) \<longrightarrow>
      InvertOperation_perform invert_op im = Inr (Some im, snd (operate_this_time invert_op)))
   \<and> (\<not> fst (operate_this_time gaussian_op) \<longrightarrow>
      GaussianBlurOperation_perform I gaussian_op im
        = Inr (Some im, snd (operate_this_time gaussian_op)))
   \<and> (\<not> fst (operate_this_time box_op) \<longrightarrow>
      BoxBlurOperation_perform I box_op im = Inr (Some im, snd (operate_this_time box_op)))
   \<and> (\<not> fst (operate_this_time fast_op) \<longrightarrow>
      FastGaussianBlurOperation_perform I fast_op im
        = Inr (Some im, snd (operate_this_time fast_op)))
   \<and> (\<not> fst (operate_this_time erase_op) \<longrightarrow>
      RandomEraseOperation_perform erase_op im
        = Inr (Some im, snd (operate_this_time erase_op)))"
  by (simp add: StdoutOperation_perform_def ResizeOperation_perform_def
      CropOperation_perform_def ZoomOperation_perform_def RotateOperation_perform_def
      FlipOperation_perform_def InvertOperation_perform_def GaussianBlurOperation_perform_def
      BoxBlurOperation_perform_def FastGaussianBlurOperation_perform_def
      RandomEraseOperation_perform_def split_beta)

theorem skip_outcome_witness:
  "StdoutOperation_perform (Operation.extend skipping (StdoutOperation.fields ''x''))
      (constant_image 2 2 1 7)
     = Inr (None, snd (operate_this_time
                         (Operation.extend skipping (StdoutOperation.fields ''x''))))
   \<and> ResizeOperation_perform example_class
        (Operation.extend skipping
           (ResizeOperation.fields \<lparr>height = 1, width = 1\<rparr> \<lparr>height = 4, width = 4\<rparr>))
        (constant_image 2 2 1 7)
     = Inr (Some (constant_image 2 2 1 7), snd (operate_this_time
          (Operation.extend skipping
             (ResizeOperation.fields \<lparr>height = 1, width = 1\<rparr> \<lparr>height = 4, width = 4\<rparr>))))
   \<and> CropOperation_perform example_class
        (Operation.extend skipping (CropOperation.fields \<lparr>height = 1, width = 1\<rparr> True))
        (constant_image 2 2 1 7)
     = Inr (Some (constant_image 2 2 1 7), snd (operate_this_time
          (Operation.extend skipping (CropOperation.fields \<lparr>height = 1, width = 1\<rparr> True))))
   \<and> ZoomOperation_perform example_class (constant_generator (1/2))
        (Operation.extend skipping
           (ZoomOperation.fields \<lparr>min_factor = 1, max_factor = 2\<rparr>))
        (constant_image 2 2 1 7)
     = Inr (Some (constant_image 2 2 1 7), snd (operate_this_time
          (Operation.extend skipping
             (ZoomOperation.fields \<lparr>min_factor = 1, max_factor = 2\<rparr>))))
   \<and> RotateOperation_perform example_class
        (Operation.extend skipping
           (RotateOperation.fields \<lparr>min_rotate = 0, max_rotate = 90\<rparr>))
        (constant_image 2 2 1 7)
     = Inr (Some (constant_image 2 2 1 7), snd (operate_this_time
          (Operation.extend skipping
             (RotateOperation.fields \<lparr>min_rotate = 0, max_rotate = 90\<rparr>))))
   \<and> FlipOperation_perform (Operation.extend skipping (FlipOperation.fields HORIZONTAL))
        (constant_image 2 2 1 7)
     = Inr (Some (constant_image 2 2 1 7), snd (operate_this_time
          (Operation.extend skipping (FlipOperation.fields HORIZONTAL))))
   \<and> InvertOperation_perform skipping (constant_image 2 2 1 7)
     = Inr (Some (constant_image 2 2 1 7), snd (operate_this_time skipping))
   \<and> GaussianBlurOperation_perform example_class
        (Operation.extend skipping (GaussianBlurOperation.fields [1/4, 1/2, 1/4]))
        (constant_image 2 2 1 7)
     = Inr (Some (constant_image 2 2 1 7), snd (operate_this_time
          (Operation.extend skipping (GaussianBlurOperation.fields [1/4, 1/2, 1/4]))))
   \<and> BoxBlurOperation_perform example_class
        (Operation.extend skipping (BoxBlurOperation.fields \<lparr>filter_length = 3\<rparr>))
        (constant_image 2 2 1 7)
     = Inr (Some (constant_image 2 2 1 7), snd (operate_this_time
          (Operation.extend skipping (BoxBlurOperation.fields \<lparr>filter_length = 3\<rparr>))))
   \<and> FastGaussianBlurOperation_perform example_class
        (Operation.extend skipping (FastGaussianBlurOperation.fields []))
        (constant_image 2 2 1 7)
     = Inr (Some (constant_image 2 2 1 7), snd (operate_this_time
          (Operation.extend skipping (FastGaussianBlurOperation.fields []))))
   \<and> RandomEraseOperation_perform
        (Operation.extend skipping
           (RandomEraseOperation.fields (constant_generator 5) (constant_generator 9)
              \<lparr>height = 1, width = 1\<rparr> \<lparr>height = 1, width = 1\<rparr>))
        (constant_image 2 2 1 7)
     = Inr (Some (constant_image 2 2 1 7), snd (operate_this_time
          (Operation.extend skipping
             (RandomEraseOperation.fields (constant_generator 5) (constant_generator 9)
                \<lparr>height = 1, width = 1\<rparr> \<lparr>height = 1, width = 1\<rparr>))))"
  using skip_outcome [where im = "constant_image 2 2 1 7" and I = example_class
      and g = "constant_generator (1/2)"
      and stdout_op = "Operation.extend skipping (StdoutOperation.fields ''x'')"
      and resize_op = "Operation.extend skipping
           (ResizeOperation.fields \<lparr>height = 1, width = 1\<rparr> \<lparr>height = 4, width = 4\<rparr>)"
      and crop_op = "Operation.extend skipping
           (CropOperation.fields \<lparr>height = 1, width = 1\<rparr> True)"
      and zoom_op = "Operation.extend skipping
           (ZoomOperation.fields \<lparr>min_factor = 1, max_factor = 2\<rparr>)"
      and rotate_op = "Operation.extend skipping
           (RotateOperation.fields \<lparr>min_rotate = 0, max_rotate = 90\<rparr>)"
      and flip_op = "Operation.extend skipping (FlipOperation.fields HORIZONTAL)"
      and invert_op = skipping
      and gaussian_op = "Operation.extend skipping
           (GaussianBlurOperation.fields [1/4, 1/2, 1/4])"
      and box_op = "Operation.extend skipping
           (BoxBlurOperation.fields \<lparr>filter_length = 3\<rparr>)"
      and fast_op = "Operation.extend skipping (FastGaussianBlurOperation.fields [])"
      and erase_op = "Operation.extend skipping
           (RandomEraseOperation.fields (constant_generator 5) (constant_generator 9)
              \<lparr>height = 1, width = 1\<rparr> \<lparr>height = 1, width = 1\<rparr>)"]
  by (simp only: skipping_gate skipping_base_gate simp_thms)

text \<open>
  C2 (as stated) fails: on a failed gate StdoutOperation returns no image, not the
  image it was given.
\<close>

theorem stdout_skip_returns_null:
  "\<not> fst (operate_this_time (Operation.extend skipping (StdoutOperation.fields ''x'')))
   \<and> StdoutOperation_perform (Operation.extend skipping (StdoutOperation.fields ''x''))
        (constant_image 2 2 1 7)
      = Inr (None, snd (operate_this_time
                          (Operation.extend skipping (StdoutOperation.fields ''x''))))"
  by (simp add: StdoutOperation_perform_def split_beta skipping_gate)

section \<open>Flip\<close>

text \<open>
  C9. When the gate fires and the type string is neither "Horizontal" nor "Vertical",
  perform ends at once with the exception the source throws for an unknown flip type;
  no image is returned and nothing is tried again.
\<close>

theorem flip_unknown_type:
  "fst (operate_this_time op) \<Longrightarrow> type op \<noteq> HORIZONTAL \<Longrightarrow> type op \<noteq> VERTICAL \<Longrightarrow>
   FlipOperation_perform op im = Inl (Thrown_out_of_range unknown_flip_type)"
  by (simp add: FlipOperation_perform_def split_beta gate_state)

theorem flip_unknown_type_witness:
  "fst (operate_this_time
          \<lparr>probability = 1, generator = constant_generator (1/2), type = ''Diagonal''\<rparr>)
   \<and> ''Diagonal'' \<noteq> HORIZONTAL \<and> ''Diagonal'' \<noteq> VERTICAL
   \<and> FlipOperation_perform
        \<lparr>probability = 1, generator = constant_generator (1/2), type = ''Diagonal''\<rparr>
        (constant_image 2 2 1 7)
      = Inl (Thrown_out_of_range unknown_flip_type)"
proof -
  let ?op = "\<lparr>probability = 1, generator = constant_generator (1/2), type = ''Diagonal''\<rparr>"
  have fires: "fst (operate_this_time ?op)"
    by (simp add: operate_this_time_def draw_def constant_generator_def)
  have other: "type ?op \<noteq> HORIZONTAL" "type ?op \<noteq> VERTICAL"
    by (simp_all add: HORIZONTAL_def VERTICAL_def)
  show ?thesis
    using flip_unknown_type [OF fires other, of "constant_image 2 2 1 7"] fires other
    by simp
qed

section \<open>Crop\<close>

text \<open>
  C10. When the gate fires and the center flag is false, perform copies nothing and
  returns the temporary it has just constructed: an image of the target width and
  height in which every pixel is still unset.
\<close>

theorem crop_without_center:
  "fst (operate_this_time op) \<Longrightarrow> \<not> center op \<Longrightarrow>
   CropOperation_perform I op im
     = Inr (Some (Image_new2 I (width (crop_size op)) (height (crop_size op))),
            snd (operate_this_time op))
   \<and> getWidth (Image_new2 I (width (crop_size op)) (height (crop_size op)))
       = width (crop_size op)
   \<and> getHeight (Image_new2 I (width (crop_size op)) (height (crop_size op)))
       = height (crop_size op)
   \<and> (\<forall>p. pixel_at (Image_new2 I (width (crop_size op)) (height (crop_size op))) p
            = unset_pixel I (default_pixel_size I))"
  by (simp add: CropOperation_perform_def split_beta Let_def Image_new2_def Image_new_def
      gate_state)

theorem crop_without_center_witness:
  "fst (operate_this_time
          \<lparr>probability = 1, generator = constant_generator (1/2),
           crop_size = \<lparr>height = 1, width = 1\<rparr>, center = False\<rparr>)
   \<and> CropOperation_perform example_class
        \<lparr>probability = 1, generator = constant_generator (1/2),
         crop_size = \<lparr>height = 1, width = 1\<rparr>, center = False\<rparr>
        (constant_image 2 2 1 7)
      = Inr (Some (Image_new2 example_class 1 1),
             \<lparr>probability = 1, generator = (constant_generator (1/2))\<lparr>drawn := 1\<rparr>,
              crop_size = \<lparr>height = 1, width = 1\<rparr>, center = False\<rparr>)
   \<and> Image_new2 example_class 1 1 \<noteq> constant_image 2 2 1 7
   \<and> pixel_at (Image_new2 example_class 1 1) (0, 0) = [0]"
proof -
  let ?op = "\<lparr>probability = 1, generator = constant_generator (1/2),
              crop_size = \<lparr>height = 1, width = 1\<rparr>, center = False\<rparr>"
  have fires: "fst (operate_this_time ?op)"
    by (simp add: operate_this_time_def draw_def constant_generator_def)
  have after: "snd (operate_this_time ?op) = ?op\<lparr>generator := (constant_generator (1/2))\<lparr>drawn := 1\<rparr>\<rparr>"
    by (simp add: operate_this_time_def draw_def constant_generator_def)
  have differs: "Image_new2 example_class 1 1 \<noteq> constant_image 2 2 1 7"
    by (simp add: Image_new2_def Image_new_def constant_image_def)
  have unset: "pixel_at (Image_new2 example_class 1 1) (0, 0) = [0]"
    by (simp add: Image_new2_def Image_new_def example_class_def)
  show ?thesis
    using crop_without_center [of ?op example_class "constant_image 2 2 1 7"] fires after
      differs unset
    by simp
qed

text \<open>
  C4 fails on the code: the bounds checks of the centered crop are commented out, and
  perform never throws. With a 4 by 4 target on a 2 by 2 image the offsets wrap around
  as sizes, no loop iteration runs and the result is the unset 4 by 4 temporary; with a
  3 by 3 target the loops read the pixel at row 2, outside the image.
\<close>

theorem crop_centered_no_bounds_check:
  "CropOperation_perform example_class
     \<lparr>probability = 1, generator = constant_generator (1/2),
      crop_size = \<lparr>height = 4, width = 4\<rparr>, center = True\<rparr>
     (constant_image 2 2 1 7)
   = Inr (Some (Image_new2 example_class 4 4),
          \<lparr>probability = 1, generator = (constant_generator (1/2))\<lparr>drawn := 1\<rparr>,
           crop_size = \<lparr>height = 4, width = 4\<rparr>, center = True\<rparr>)
   \<and> CropOperation_perform example_class
       \<lparr>probability = 1, generator = constant_generator (1/2),
        crop_size = \<lparr>height = 3, width = 3\<rparr>, center = True\<rparr>
       (constant_image 2 2 1 7)
     = Inl Access_outside_image"
  by (simp add: CropOperation_perform_def operate_this_time_def draw_def
      constant_generator_def int_of_size_def c_div_def size_of_int_def size_t_sub_def
      size_t_add_def crop_copy_def constant_image_def Let_def upt_rec getPixel_def
      setPixel_def Image_new2_def Image_new_def example_class_def)

section \<open>Invert\<close>

lemma inverted_upto_row_end:
  "inverted_upto im y (getWidth im) = inverted_upto im (Suc y) 0"
  unfolding inverted_upto_def
  by (rule pixel_at_update_cong) (auto simp: less_Suc_eq)

lemma inverted_upto_start: "inverted_upto im 0 0 = im"
  by (simp add: inverted_upto_def)

lemma invert_step:
  assumes "x < getWidth im" "y < getHeight im"
  shows "bindE (getPixel (inverted_upto im y x) x y) (\<lambda>pixels.
           setPixel (inverted_upto im y x) x y (map (\<lambda>p. 255 - p) pixels))
         = Inr (inverted_upto im y (Suc x))"
proof -
  have "(\<lambda>(x', y').
            if x' < getWidth im \<and> (y' < y \<or> (y' = y \<and> x' < x))
            then map (\<lambda>p. 255 - p) (pixel_at im (x', y'))
            else pixel_at im (x', y'))((x, y) := map (\<lambda>p. 255 - p) (pixel_at im (x, y)))
        = (\<lambda>(x', y').
            if x' < getWidth im \<and> (y' < y \<or> (y' = y \<and> x' < Suc x))
            then map (\<lambda>p. 255 - p) (pixel_at im (x', y'))
            else pixel_at im (x', y'))"
    using assms by (auto simp: fun_eq_iff less_Suc_eq)
  then show ?thesis
    using assms by (simp add: getPixel_def setPixel_def inverted_upto_def)
qed

lemma invert_row:
  assumes "y < getHeight im"
  shows "for_each [0..<getWidth im] (\<lambda>x img.
           bindE (getPixel img x y) (\<lambda>pixels.
           setPixel img x y (map (\<lambda>p. 255 - p) pixels))) (inverted_upto im y 0)
         = Inr (inverted_upto im (Suc y) 0)"
  using for_each_steps [where a = 0 and b = "getWidth im" and F = "inverted_upto im y"
      and body = "\<lambda>x img. bindE (getPixel img x y) (\<lambda>pixels.
           setPixel img x y (map (\<lambda>p. 255 - p) pixels))"]
    invert_step [OF _ assms]
  by (simp add: inverted_upto_row_end)

lemma invert_pixels_eq: "invert_pixels im = Inr (inverted_upto im (getHeight im) 0)"
  unfolding invert_pixels_def
  using for_each_steps [where a = 0 and b = "getHeight im" and F = "\<lambda>y. inverted_upto im y 0"
      and body = "\<lambda>y. for_each [0..<getWidth im] (\<lambda>x img.
           bindE (getPixel img x y) (\<lambda>pixels.
           setPixel img x y (map (\<lambda>p. 255 - p) pixels)))"]
    invert_row
  by (simp add: inverted_upto_start)

lemma inverted_twice:
  "inverted_upto (inverted_upto im (getHeight im) 0) (getHeight im) 0 = im"
proof -
  have "map (\<lambda>p. 255 - p) (map (\<lambda>p. 255 - p) px) = px" for px :: pixel
    by (simp add: o_def)
  then show ?thesis
    by (auto simp: inverted_upto_def fun_eq_iff intro!: Image.equality)
qed

text \<open>
  C8. Invert is an involution: when the gate fires both times, inverting the inverted
  image gives back the image, every channel \<open>v\<close> having become \<open>255 - v\<close> and then
  \<open>255 - (255 - v)\<close>, which is \<open>v\<close>.
\<close>

theorem invert_involutive:
  assumes "fst (operate_this_time op1)" and "fst (operate_this_time op2)"
  shows "\<exists>inverted.
           InvertOperation_perform op1 im = Inr (Some inverted, snd (operate_this_time op1))
           \<and> (\<forall>x y. x < getWidth im \<longrightarrow> y < getHeight im \<longrightarrow>
                 pixel_at inverted (x, y) = map (\<lambda>v. 255 - v) (pixel_at im (x, y)))
           \<and> InvertOperation_perform op2 inverted = Inr (Some im, snd (operate_this_time op2))"
proof -
  let ?mid = "inverted_upto im (getHeight im) 0"
  have 1: "InvertOperation_perform op1 im = Inr (Some ?mid, snd (operate_this_time op1))"
    using assms(1) by (simp add: InvertOperation_perform_def split_beta invert_pixels_eq)
  have 2: "\<forall>x y. x < getWidth im \<longrightarrow> y < getHeight im \<longrightarrow>
                 pixel_at ?mid (x, y) = map (\<lambda>v. 255 - v) (pixel_at im (x, y))"
    by (simp add: inverted_upto_def)
  have "getHeight ?mid = getHeight im"
    by (simp add: inverted_upto_def)
  then have "invert_pixels ?mid = Inr im"
    using invert_pixels_eq [of ?mid] by (simp add: inverted_twice)
  then have "InvertOperation_perform op2 ?mid = Inr (Some im, snd (operate_this_time op2))"
    using assms(2) by (simp add: InvertOperation_perform_def split_beta)
  with 1 2 show ?thesis by blast
qed

theorem invert_involutive_witness:
  "fst (operate_this_time firing)
   \<and> (\<exists>inverted.
         InvertOperation_perform firing (constant_image 2 2 1 7)
           = Inr (Some inverted, snd (operate_this_time firing))
         \<and> pixel_at inverted (0, 0) = [248]
         \<and> InvertOperation_perform firing inverted
           = Inr (Some (constant_image 2 2 1 7), snd (operate_this_time firing)))"
proof -
  obtain inverted where
    1: "InvertOperation_perform firing (constant_image 2 2 1 7)
          = Inr (Some inverted, snd (operate_this_time firing))"
    and 2: "\<forall>x y. x < getWidth (constant_image 2 2 1 7) \<longrightarrow>
               y < getHeight (constant_image 2 2 1 7) \<longrightarrow>
               pixel_at inverted (x, y)
                 = map (\<lambda>v. 255 - v) (pixel_at (constant_image 2 2 1 7) (x, y))"
    and 3: "InvertOperation_perform firing inverted
          = Inr (Some (constant_image 2 2 1 7), snd (operate_this_time firing))"
    using invert_involutive [OF firing_base_gate firing_base_gate, of "constant_image 2 2 1 7"]
    by blast
  have "pixel_at inverted (0, 0) = [248]"
    using 2 [rule_format, of 0 0] by (simp add: constant_image_def)
  with 1 3 firing_base_gate show ?thesis by blast
qed

section \<open>Rotate\<close>

lemma int_of_size_small: "n < 2 ^ 31 \<Longrightarrow> int_of_size n = int n"
  by (simp add: int_of_size_def signed_of_nat signed_take_bit_int_eq_self)

lemma size_of_int_nat: "0 \<le> x \<Longrightarrow> x < 2 ^ 64 \<Longrightarrow> size_of_int x = nat x"
  by (simp add: size_of_int_def)

lemma c_div_nonneg: "0 \<le> a \<Longrightarrow> c_div a 2 = a div 2"
  by (cases "a = 0") (simp_all add: c_div_def)

lemma c_round_of_int: "c_round (real_of_int n) = n"
  unfolding c_round_def by (auto; linarith)

lemma rotate_source_zero: "rotate_source 0 hw hh x y = (int x, int y)"
  using c_round_of_int [of "int x"] c_round_of_int [of "int y"]
  by (simp add: rotate_source_def Let_def)

lemma rotated_upto_start: "rotated_upto im angle w h temp 0 0 = temp"
  by (simp add: rotated_upto_def split_beta)

lemma rotated_upto_column_end:
  "rotated_upto im angle w h temp x (nat h) = rotated_upto im angle w h temp (Suc x) 0"
  unfolding rotated_upto_def
  by (rule pixel_at_update_cong) (auto simp: less_Suc_eq split_beta)

lemma rotated_upto_dims:
  "getWidth (rotated_upto im angle w h temp x y) = getWidth temp"
  "getHeight (rotated_upto im angle w h temp x y) = getHeight temp"
  by (simp_all add: rotated_upto_def)

lemma rotate_step:
  assumes dims: "getWidth im = nat w" "getHeight im = nat h"
      "getWidth temp = nat w" "getHeight temp = nat h"
    and small: "w < 2 ^ 64" "h < 2 ^ 64"
    and pos: "x < nat w" "y < nat h"
  shows "(let (xs, ys) = rotate_source angle (c_div w 2) (c_div h 2) x y in
          if xs \<ge> 0 \<and> xs < w \<and> ys \<ge> 0 \<and> ys < h
          then bindE (getPixel im (size_of_int xs) (size_of_int ys))
                 (setPixel (rotated_upto im angle w h temp x y) x y)
          else Inr (rotated_upto im angle w h temp x y))
         = Inr (rotated_upto im angle w h temp x (Suc y))"
proof -
  obtain xs ys where src: "rotate_source angle (c_div w 2) (c_div h 2) x y = (xs, ys)"
    by (cases "rotate_source angle (c_div w 2) (c_div h 2) x y")
  show ?thesis
  proof (cases "xs \<ge> 0 \<and> xs < w \<and> ys \<ge> 0 \<and> ys < h")
    case True
    then have read: "getPixel im (size_of_int xs) (size_of_int ys)
        = Inr (pixel_at im (size_of_int xs, size_of_int ys))"
      using dims small by (simp add: getPixel_def size_of_int_nat)
    have "(pixel_at (rotated_upto im angle w h temp x y))
            ((x, y) := pixel_at im (size_of_int xs, size_of_int ys))
          = pixel_at (rotated_upto im angle w h temp x (Suc y))"
      using True src pos by (auto simp: rotated_upto_def fun_eq_iff less_Suc_eq split_beta)
    then have "setPixel (rotated_upto im angle w h temp x y) x y
                 (pixel_at im (size_of_int xs, size_of_int ys))
               = Inr (rotated_upto im angle w h temp x (Suc y))"
      using dims pos by (simp add: setPixel_def rotated_upto_def)
    with True src read show ?thesis by simp
  next
    case False
    have "pixel_at (rotated_upto im angle w h temp x y)
          = pixel_at (rotated_upto im angle w h temp x (Suc y))"
      using False src by (auto simp: rotated_upto_def fun_eq_iff less_Suc_eq split_beta)
    then have "rotated_upto im angle w h temp x y = rotated_upto im angle w h temp x (Suc y)"
      by (simp add: rotated_upto_def)
    with False src show ?thesis by auto
  qed
qed

lemma rotate_column:
  assumes dims: "getWidth im = nat w" "getHeight im = nat h"
      "getWidth temp = nat w" "getHeight temp = nat h"
    and small: "w < 2 ^ 64" "h < 2 ^ 64"
    and pos: "x < nat w"
  shows "for_each [0..<nat h] (\<lambda>y temp.
           let (xs, ys) = rotate_source angle (c_div w 2) (c_div h 2) x y in
           if xs \<ge> 0 \<and> xs < w \<and> ys \<ge> 0 \<and> ys < h
           then bindE (getPixel im (size_of_int xs) (size_of_int ys)) (setPixel temp x y)
           else Inr temp) (rotated_upto im angle w h temp x 0)
         = Inr (rotated_upto im angle w h temp (Suc x) 0)"
  using for_each_steps [where a = 0 and b = "nat h"
      and F = "rotated_upto im angle w h temp x"
      and body = "\<lambda>y temp.
           let (xs, ys) = rotate_source angle (c_div w 2) (c_div h 2) x y in
           if xs \<ge> 0 \<and> xs < w \<and> ys \<ge> 0 \<and> ys < h
           then bindE (getPixel im (size_of_int xs) (size_of_int ys)) (setPixel temp x y)
           else Inr temp"]
    rotate_step [OF dims small pos]
  by (simp add: rotated_upto_column_end)

lemma rotate_copy_eq:
  assumes dims: "getWidth im = nat w" "getHeight im = nat h"
      "getWidth temp = nat w" "getHeight temp = nat h"
    and small: "w < 2 ^ 64" "h < 2 ^ 64"
  shows "rotate_copy im angle w h temp = Inr (rotated_upto im angle w h temp (nat w) 0)"
  unfolding rotate_copy_def
  using for_each_steps [where a = 0 and b = "nat w"
      and F = "\<lambda>x. rotated_upto im angle w h temp x 0"
      and body = "\<lambda>x. for_each [0..<nat h] (\<lambda>y temp.
           let (xs, ys) = rotate_source angle (c_div w 2) (c_div h 2) x y in
           if xs \<ge> 0 \<and> xs < w \<and> ys \<ge> 0 \<and> ys < h
           then bindE (getPixel im (size_of_int xs) (size_of_int ys)) (setPixel temp x y)
           else Inr temp)"]
    rotate_column [OF dims small]
  by (simp add: rotated_upto_start)

text \<open>
  C6. When the gate fires on an image whose dimensions fit an \<^verbatim>\<open>int\<close>, perform returns
  an image of the same dimensions in which every destination pixel whose rounded
  source coordinates are inside the image holds the source pixel found there, and
  every other destination pixel is still unset (no wrap, no clamp). When the drawn
  angle is 0 degrees the source coordinates of \<open>(x, y)\<close> are \<open>(x, y)\<close> itself, so
  the result reproduces the source at every pixel.
\<close>

theorem rotate_samples_source:
  assumes fires: "fst (operate_this_time op)"
    and small: "getWidth im < 2 ^ 31" "getHeight im < 2 ^ 31"
  shows "let (rotate_degree, op') =
               uniform_random_number_in (real_of_int (min_rotate (rotation_range op)))
                 (real_of_int (max_rotate (rotation_range op))) (snd (operate_this_time op))
         in \<exists>rotated.
              RotateOperation_perform I op im = Inr (Some rotated, op')
              \<and> getWidth rotated = getWidth im \<and> getHeight rotated = getHeight im
              \<and> (\<forall>x y. x < getWidth im \<longrightarrow> y < getHeight im \<longrightarrow>
                    pixel_at rotated (x, y)
                    = (let (xs, ys) = rotate_source (rotate_degree * PI / 180)
                                        (int (getWidth im) div 2) (int (getHeight im) div 2) x y
                       in if 0 \<le> xs \<and> xs < int (getWidth im)
                             \<and> 0 \<le> ys \<and> ys < int (getHeight im)
                          then pixel_at im (nat xs, nat ys)
                          else unset_pixel I (default_pixel_size I)))
              \<and> (rotate_degree = 0 \<longrightarrow>
                   (\<forall>x y. x < getWidth im \<longrightarrow> y < getHeight im \<longrightarrow>
                      pixel_at rotated (x, y) = pixel_at im (x, y)))"
proof -
  obtain rotate_degree op' where drawn_angle:
    "uniform_random_number_in (real_of_int (min_rotate (rotation_range op)))
       (real_of_int (max_rotate (rotation_range op))) (snd (operate_this_time op))
     = (rotate_degree, op')"
    by (cases "uniform_random_number_in (real_of_int (min_rotate (rotation_range op)))
       (real_of_int (max_rotate (rotation_range op))) (snd (operate_this_time op))")
  let ?w = "int (getWidth im)" and ?h = "int (getHeight im)"
  let ?angle = "rotate_degree * PI / 180"
  let ?temp = "Image_new2 I (getWidth im) (getHeight im)"
  let ?rotated = "rotated_upto im ?angle ?w ?h ?temp (getWidth im) 0"
  have w: "int_of_size (getWidth im) = ?w" and h: "int_of_size (getHeight im) = ?h"
    using small by (simp_all add: int_of_size_small)
  have sizes: "size_of_int ?w = getWidth im" "size_of_int ?h = getHeight im"
    using small by (simp_all add: size_of_int_def)
  have lt: "?w < 2 ^ 64" "?h < 2 ^ 64"
    using small by simp_all
  have copy: "rotate_copy im ?angle ?w ?h ?temp = Inr ?rotated"
    using rotate_copy_eq [of im ?w ?h ?temp ?angle] lt
    by (simp add: Image_new2_def Image_new_def)
  have perform: "RotateOperation_perform I op im = Inr (Some ?rotated, op')"
    using fires drawn_angle copy
    by (simp add: RotateOperation_perform_def split_beta Let_def gate_state w h sizes)
  have dims: "getWidth ?rotated = getWidth im" "getHeight ?rotated = getHeight im"
    by (simp_all add: rotated_upto_def Image_new2_def Image_new_def)
  have sample: "pixel_at ?rotated (x, y)
      = (let (xs, ys) = rotate_source ?angle (?w div 2) (?h div 2) x y
         in if 0 \<le> xs \<and> xs < ?w \<and> 0 \<le> ys \<and> ys < ?h
            then pixel_at im (nat xs, nat ys)
            else unset_pixel I (default_pixel_size I))"
    if "x < getWidth im" "y < getHeight im" for x y
    using that lt
    by (auto simp: rotated_upto_def split_beta Let_def c_div_nonneg size_of_int_nat
        Image_new2_def Image_new_def)
  have identity: "pixel_at ?rotated (x, y) = pixel_at im (x, y)"
    if "rotate_degree = 0" "x < getWidth im" "y < getHeight im" for x y
    using sample [OF that(2,3)] that by (simp add: rotate_source_zero)
  show ?thesis
    unfolding drawn_angle Let_def prod.case
    using perform dims sample [unfolded Let_def] identity by blast
qed

theorem rotate_samples_source_witness:
  "fst (operate_this_time zero_rotation)
   \<and> getWidth step_column < 2 ^ 31 \<and> getHeight step_column < 2 ^ 31
   \<and> fst (uniform_random_number_in (real_of_int (min_rotate (rotation_range zero_rotation)))
            (real_of_int (max_rotate (rotation_range zero_rotation)))
            (snd (operate_this_time zero_rotation))) = 0
   \<and> (\<exists>rotated op'.
         RotateOperation_perform example_class zero_rotation step_column
           = Inr (Some rotated, op')
         \<and> getWidth rotated = 1 \<and> getHeight rotated = 3
         \<and> map (\<lambda>y. pixel_at rotated (0, y)) [0, 1, 2] = [[0], [0], [200]])"
proof -
  have fires: "fst (operate_this_time zero_rotation)"
    by (simp add: operate_this_time_def draw_def zero_rotation_def constant_generator_def)
  have small: "getWidth step_column < 2 ^ 31" "getHeight step_column < 2 ^ 31"
    by (simp_all add: step_column_def)
  obtain rotate_degree op' where drawn_angle:
    "uniform_random_number_in (real_of_int (min_rotate (rotation_range zero_rotation)))
       (real_of_int (max_rotate (rotation_range zero_rotation)))
       (snd (operate_this_time zero_rotation)) = (rotate_degree, op')"
    by (cases "uniform_random_number_in
       (real_of_int (min_rotate (rotation_range zero_rotation)))
       (real_of_int (max_rotate (rotation_range zero_rotation)))
       (snd (operate_this_time zero_rotation))")
  have zero: "rotate_degree = 0"
    using drawn_angle
    by (simp add: uniform_random_number_in_def zero_rotation_def split_beta gate_state)
  obtain rotated where
    perform: "RotateOperation_perform example_class zero_rotation step_column
                = Inr (Some rotated, op')"
    and dims: "getWidth rotated = getWidth step_column"
      "getHeight rotated = getHeight step_column"
    and same: "\<forall>x y. x < getWidth step_column \<longrightarrow> y < getHeight step_column \<longrightarrow>
                 pixel_at rotated (x, y) = pixel_at step_column (x, y)"
    using rotate_samples_source [OF fires small, of example_class] zero
    unfolding drawn_angle Let_def prod.case by blast
  have "map (\<lambda>y. pixel_at rotated (0, y)) [0, 1, 2] = [[0], [0], [200]]"
    using same by (simp add: step_column_def)
  moreover have "getWidth rotated = 1" "getHeight rotated = 3"
    using dims by (simp_all add: step_column_def)
  ultimately show ?thesis
    using fires small perform zero drawn_angle by auto
qed

section \<open>Random erase\<close>

lemma draw_noise_pixel_eq:
  assumes len: "length new_pixel = pixel_size"
  shows "draw_noise_pixel pixel_size (noise, new_pixel)
         = Inr (noise\<lparr>drawn := drawn noise + pixel_size\<rparr>,
                map (\<lambda>k. sequence noise (drawn noise + k)) [0..<pixel_size])"
proof -
  let ?F = "\<lambda>k. (noise\<lparr>drawn := drawn noise + k\<rparr>,
                 map (\<lambda>i. if i < k then sequence noise (drawn noise + i) else new_pixel ! i)
                   [0..<pixel_size])"
  let ?body = "\<lambda>k (noise, new_pixel).
       let (v, noise) = draw noise in
       if k < length new_pixel then Inr (noise, new_pixel[k := v])
       else Inl Access_outside_vector"
  have step: "?body k (?F k) = Inr (?F (Suc k))" if "k < pixel_size" for k
  proof -
    have "(map (\<lambda>i. if i < k then sequence noise (drawn noise + i) else new_pixel ! i)
             [0..<pixel_size])[k := sequence noise (drawn noise + k)]
          = map (\<lambda>i. if i < Suc k then sequence noise (drawn noise + i) else new_pixel ! i)
              [0..<pixel_size]"
      using that by (auto intro!: nth_equalityI simp: nth_list_update less_Suc_eq)
    then show ?thesis
      using that by (simp add: draw_def)
  qed
  have "for_each [0..<pixel_size] ?body (?F 0) = Inr (?F pixel_size)"
    by (rule for_each_steps) (use step in auto)
  moreover have "?F 0 = (noise, new_pixel)"
    using map_nth [of new_pixel] len by simp
  moreover have "?F pixel_size = (noise\<lparr>drawn := drawn noise + pixel_size\<rparr>,
                map (\<lambda>k. sequence noise (drawn noise + k)) [0..<pixel_size])"
    by simp
  ultimately show ?thesis
    by (simp add: draw_noise_pixel_def)
qed

lemma erased_upto_start: "erased_upto left' top' sz noise im left' top'
    = (noise, replicate (getPixelSize im) 0, im)"
proof -
  have "(\<lambda>(x, y).
            if left' \<le> x \<and> top' \<le> y \<and> y < top' + height sz
               \<and> (x < left' \<or> (x = left' \<and> y < top'))
            then noise_pixel noise (getPixelSize im) ((x - left') * height sz + (y - top'))
            else pixel_at im (x, y))
        = pixel_at im"
    by (auto simp: fun_eq_iff)
  then show ?thesis
    by (simp add: erased_upto_def Let_def)
qed

lemma erased_upto_column_end:
  "left' \<le> i \<Longrightarrow> erased_upto left' top' sz noise im i (top' + height sz)
     = erased_upto left' top' sz noise im (Suc i) top'"
proof -
  assume le: "left' \<le> i"
  have count: "(i - left') * height sz + (top' + height sz - top')
      = (Suc i - left') * height sz + (top' - top')"
    using le by (simp add: Suc_diff_le)
  have "(\<lambda>(x, y).
            if left' \<le> x \<and> top' \<le> y \<and> y < top' + height sz
               \<and> (x < i \<or> (x = i \<and> y < top' + height sz))
            then noise_pixel noise (getPixelSize im) ((x - left') * height sz + (y - top'))
            else pixel_at im (x, y))
        = (\<lambda>(x, y).
            if left' \<le> x \<and> top' \<le> y \<and> y < top' + height sz
               \<and> (x < Suc i \<or> (x = Suc i \<and> y < top'))
            then noise_pixel noise (getPixelSize im) ((x - left') * height sz + (y - top'))
            else pixel_at im (x, y))"
    by (auto simp: fun_eq_iff less_Suc_eq)
  then show ?thesis
    unfolding erased_upto_def Let_def count by simp
qed

lemma erase_step:
  assumes i: "left' \<le> i" "i < getWidth im"
    and j: "top' \<le> j" "j < top' + height sz" "top' + height sz \<le> getHeight im"
  shows "(\<lambda>(noise, new_pixel, img).
            bindE (draw_noise_pixel (getPixelSize img) (noise, new_pixel))
              (\<lambda>(noise, new_pixel).
                 bindE (setPixel img i j new_pixel) (\<lambda>img. Inr (noise, new_pixel, img))))
           (erased_upto left' top' sz noise im i j)
         = Inr (erased_upto left' top' sz noise im i (Suc j))"
proof -
  let ?ps = "getPixelSize im"
  let ?n = "(i - left') * height sz + (j - top')"
  let ?now = "noise\<lparr>drawn := drawn noise + ?n * ?ps\<rparr>"
  let ?px = "if ?n = 0 then replicate ?ps 0 else noise_pixel noise ?ps (?n - 1)"
  let ?img = "im\<lparr>pixel_at := (\<lambda>(x, y).
            if left' \<le> x \<and> top' \<le> y \<and> y < top' + height sz \<and> (x < i \<or> (x = i \<and> y < j))
            then noise_pixel noise ?ps ((x - left') * height sz + (y - top'))
            else pixel_at im (x, y))\<rparr>"
  have state: "erased_upto left' top' sz noise im i j = (?now, ?px, ?img)"
    by (simp add: erased_upto_def Let_def)
  have next_count: "(i - left') * height sz + (Suc j - top') = Suc ?n"
    using j by (simp add: Suc_diff_le)
  have len: "length ?px = ?ps"
    by (simp add: noise_pixel_def)
  have drawn_pixel: "draw_noise_pixel ?ps (?now, ?px)
      = Inr (noise\<lparr>drawn := drawn noise + Suc ?n * ?ps\<rparr>, noise_pixel noise ?ps ?n)"
    using draw_noise_pixel_eq [OF len, of ?now]
    by (simp add: noise_pixel_def add.commute add.left_commute)
  have updated: "(pixel_at ?img)((i, j) := noise_pixel noise ?ps ?n)
      = (\<lambda>(x, y).
            if left' \<le> x \<and> top' \<le> y \<and> y < top' + height sz
               \<and> (x < i \<or> (x = i \<and> y < Suc j))
            then noise_pixel noise ?ps ((x - left') * height sz + (y - top'))
            else pixel_at im (x, y))"
    using i j by (auto simp: fun_eq_iff less_Suc_eq)
  have written: "setPixel ?img i j (noise_pixel noise ?ps ?n)
      = Inr (im\<lparr>pixel_at := (\<lambda>(x, y).
            if left' \<le> x \<and> top' \<le> y \<and> y < top' + height sz
               \<and> (x < i \<or> (x = i \<and> y < Suc j))
            then noise_pixel noise ?ps ((x - left') * height sz + (y - top'))
            else pixel_at im (x, y))\<rparr>)"
    using i j updated by (simp add: setPixel_def)
  have target: "erased_upto left' top' sz noise im i (Suc j)
      = (noise\<lparr>drawn := drawn noise + Suc ?n * ?ps\<rparr>, noise_pixel noise ?ps ?n,
         im\<lparr>pixel_at := (\<lambda>(x, y).
            if left' \<le> x \<and> top' \<le> y \<and> y < top' + height sz
               \<and> (x < i \<or> (x = i \<and> y < Suc j))
            then noise_pixel noise ?ps ((x - left') * height sz + (y - top'))
            else pixel_at im (x, y))\<rparr>)"
    unfolding erased_upto_def Let_def next_count by simp
  show ?thesis
    unfolding state target
    using drawn_pixel written by simp
qed

lemma erase_column:
  assumes i: "left' \<le> i" "i < getWidth im"
    and fits: "top' + height sz \<le> getHeight im"
  shows "for_each [top'..<top' + height sz] (\<lambda>j (noise, new_pixel, img).
            bindE (draw_noise_pixel (getPixelSize img) (noise, new_pixel))
              (\<lambda>(noise, new_pixel).
                 bindE (setPixel img i j new_pixel) (\<lambda>img. Inr (noise, new_pixel, img))))
           (erased_upto left' top' sz noise im i top')
         = Inr (erased_upto left' top' sz noise im (Suc i) top')"
  using for_each_steps [where a = top' and b = "top' + height sz"
      and F = "erased_upto left' top' sz noise im i"
      and body = "\<lambda>j (noise, new_pixel, img).
            bindE (draw_noise_pixel (getPixelSize img) (noise, new_pixel))
              (\<lambda>(noise, new_pixel).
                 bindE (setPixel img i j new_pixel) (\<lambda>img. Inr (noise, new_pixel, img)))"]
    erase_step [OF i _ _ fits, of _ noise] erased_upto_column_end [OF i(1), of top' sz noise im]
  by simp

lemma erase_rectangle_eq:
  assumes fits: "left' + width sz \<le> getWidth im" "top' + height sz \<le> getHeight im"
    and small: "getWidth im < 2 ^ 64" "getHeight im < 2 ^ 64"
  shows "erase_rectangle left' top' sz noise im
         = Inr (erased_upto left' top' sz noise im (left' + width sz) top')"
proof -
  have bounds: "size_t_add left' (width sz) = left' + width sz"
    "size_t_add top' (height sz) = top' + height sz"
    using fits small by (simp_all add: size_t_add_def)
  have "for_each [left'..<left' + width sz] (\<lambda>i.
          for_each [top'..<top' + height sz] (\<lambda>j (noise, new_pixel, img).
            bindE (draw_noise_pixel (getPixelSize img) (noise, new_pixel))
              (\<lambda>(noise, new_pixel).
                 bindE (setPixel img i j new_pixel) (\<lambda>img. Inr (noise, new_pixel, img)))))
          (erased_upto left' top' sz noise im left' top')
        = Inr (erased_upto left' top' sz noise im (left' + width sz) top')"
    by (rule for_each_steps) (use fits erase_column in auto)
  then show ?thesis
    by (simp add: erase_rectangle_def bounds erased_upto_start)
qed

lemma size_t_sub_le:
  assumes "b \<le> a" "a < 2 ^ 64"
  shows "size_t_sub a b = a - b"
proof -
  have 1: "b mod 2 ^ 64 = b"
    using assms by simp
  have 2: "a + 2 ^ 64 - b = (a - b) + 2 ^ 64"
    using assms by simp
  have 3: "a - b < 2 ^ 64"
    using assms by simp
  show ?thesis
    unfolding size_t_sub_def 1 2 using 3 by (simp only: mod_add_self2 mod_less)
qed

lemma interpolate_size_eq:
  assumes "lo \<le> hi" "hi < 2 ^ 64" "0 \<le> f" "f < 1"
  shows "interpolate_size lo hi f = lo + nat \<lfloor>real (hi - lo) * f\<rfloor>"
    and "lo \<le> interpolate_size lo hi f" and "interpolate_size lo hi f \<le> hi"
proof -
  let ?v = "real (hi - lo) * f"
  have nonneg: "0 \<le> ?v"
    using assms by simp
  have "?v \<le> real (hi - lo)"
    using assms by (simp add: mult_left_le)
  then have floor_le: "\<lfloor>?v\<rfloor> \<le> int (hi - lo)"
    by (simp add: floor_le_iff)
  then have le: "nat \<lfloor>?v\<rfloor> \<le> hi - lo"
    by simp
  have "hi - lo < 2 ^ 64"
    using assms(2) by simp
  then have "int (hi - lo) < int (2 ^ 64)"
    by (simp only: of_nat_less_iff)
  then have diff_small: "int (hi - lo) < 2 ^ 64"
    by simp
  have floor_nonneg: "0 \<le> \<lfloor>?v\<rfloor>"
    using nonneg by simp
  have "\<lfloor>?v\<rfloor> < 2 ^ 64"
    using floor_le diff_small by linarith
  then have "size_of_int (truncate_to_int ?v) = nat \<lfloor>?v\<rfloor>"
    using nonneg floor_nonneg by (simp add: size_of_int_def truncate_to_int_def)
  moreover have "nat \<lfloor>?v\<rfloor> + lo < 2 ^ 64"
    using le assms(1,2) by simp
  ultimately show eq: "interpolate_size lo hi f = lo + nat \<lfloor>?v\<rfloor>"
    using assms(1,2) by (simp add: interpolate_size_def size_t_sub_le size_t_add_def)
  show "lo \<le> interpolate_size lo hi f"
    using eq by simp
  show "interpolate_size lo hi f \<le> hi"
    using eq le assms(1) by simp
qed

lemma erased_upto_pixel:
  "pixel_at (snd (snd (erased_upto l t sz noise im (l + width sz) t))) (x, y)
     = (if l \<le> x \<and> x < l + width sz \<and> t \<le> y \<and> y < t + height sz
        then noise_pixel noise (getPixelSize im) ((x - l) * height sz + (y - t))
        else pixel_at im (x, y))"
  by (auto simp: erased_upto_def Let_def)

lemma size_t_window:
  assumes "e \<le> n" "n + 1 < 2 ^ 64"
  shows "size_t_add (size_t_sub n e) 1 = n - e + 1"
proof -
  have "n < 2 ^ 64"
    using assms(2) by simp
  then have "size_t_sub n e = n - e"
    using assms(1) by (rule size_t_sub_le [rotated])
  moreover have "n - e + 1 < 2 ^ 64"
    using assms by simp
  ultimately show ?thesis
    by (simp only: size_t_add_def mod_less)
qed

lemma offset_fits:
  fixes e n r :: nat
  assumes "e \<le> n"
  shows "r mod (n - e + 1) + e \<le> n"
proof -
  have "r mod (n - e + 1) < n - e + 1"
    by (rule mod_less_divisor) simp
  with assms show ?thesis
    by linarith
qed

text \<open>
  C7. When the gate fires (unit draws, the lower mask size at most the upper, and the
  image dimensions below the largest size), perform overwrites exactly one rectangle:
  its width and height are interpolated from the clamped lower and upper mask sizes
  with the one factor drawn, its offsets come from the next two draws of the offset
  generator, it lies inside the image, every pixel in it is a freshly drawn noise
  pixel (one draw per channel), and every pixel outside it is the pixel of the image
  as it was.
\<close>

theorem random_erase_frame:
  assumes fires: "fst (operate_this_time op)"
    and unit: "unit_range (generator op)"
    and small: "getWidth im + 1 < 2 ^ 64" "getHeight im + 1 < 2 ^ 64"
    and ordered: "height (lower_mask_size op) \<le> height (upper_mask_size op)"
      "width (lower_mask_size op) \<le> width (upper_mask_size op)"
  shows "let factor = fst (uniform_random_number (snd (operate_this_time op)));
             w = interpolate_size (min (getWidth im) (width (lower_mask_size op)))
                   (min (getWidth im) (width (upper_mask_size op))) factor;
             h = interpolate_size (min (getHeight im) (height (lower_mask_size op)))
                   (min (getHeight im) (height (upper_mask_size op))) factor;
             top' = sequence (xy_generator op) (drawn (xy_generator op))
                      mod (getHeight im - h + 1);
             left' = sequence (xy_generator op) (Suc (drawn (xy_generator op)))
                       mod (getWidth im - w + 1)
         in min (getWidth im) (width (lower_mask_size op)) \<le> w
            \<and> w \<le> min (getWidth im) (width (upper_mask_size op))
            \<and> min (getHeight im) (height (lower_mask_size op)) \<le> h
            \<and> h \<le> min (getHeight im) (height (upper_mask_size op))
            \<and> left' + w \<le> getWidth im \<and> top' + h \<le> getHeight im
            \<and> (\<exists>erased op'.
                  RandomEraseOperation_perform op im = Inr (Some erased, op')
                  \<and> getWidth erased = getWidth im \<and> getHeight erased = getHeight im
                  \<and> getPixelSize erased = getPixelSize im
                  \<and> (\<forall>x y. pixel_at erased (x, y)
                         = (if left' \<le> x \<and> x < left' + w \<and> top' \<le> y \<and> y < top' + h
                            then noise_pixel (noise_generator op) (getPixelSize im)
                                   ((x - left') * h + (y - top'))
                            else pixel_at im (x, y)))
                  \<and> drawn (noise_generator op')
                      = drawn (noise_generator op) + w * h * getPixelSize im
                  \<and> drawn (xy_generator op') = drawn (xy_generator op) + 2
                  \<and> drawn (generator op') = drawn (generator op) + 2)"
proof -
  let ?W = "getWidth im" and ?H = "getHeight im" and ?ps = "getPixelSize im"
  let ?g1 = "(generator op)\<lparr>drawn := Suc (drawn (generator op))\<rparr>"
  let ?g2 = "(generator op)\<lparr>drawn := Suc (Suc (drawn (generator op)))\<rparr>"
  let ?op1 = "op\<lparr>generator := ?g1\<rparr>"
  let ?op2 = "op\<lparr>generator := ?g2\<rparr>"
  let ?factor = "sequence (generator op) (Suc (drawn (generator op)))"
  let ?w = "interpolate_size (min ?W (width (lower_mask_size op)))
              (min ?W (width (upper_mask_size op))) ?factor"
  let ?h = "interpolate_size (min ?H (height (lower_mask_size op)))
              (min ?H (height (upper_mask_size op))) ?factor"
  let ?top = "sequence (xy_generator op) (drawn (xy_generator op)) mod (?H - ?h + 1)"
  let ?left = "sequence (xy_generator op) (Suc (drawn (xy_generator op))) mod (?W - ?w + 1)"
  let ?sz = "\<lparr>height = ?h, width = ?w\<rparr>"
  let ?noise = "noise_generator op"
  have gate: "operate_this_time op = (True, ?op1)"
    using fires by (simp add: operate_this_time_def draw_def split_beta)
  have drawn_factor: "uniform_random_number ?op1 = (?factor, ?op2)"
    by (simp add: uniform_random_number_def draw_def)
  have factor_eq: "fst (uniform_random_number (snd (operate_this_time op))) = ?factor"
    unfolding gate snd_conv drawn_factor fst_conv ..
  have factor: "0 \<le> ?factor" "?factor < 1"
    using unit by (simp_all add: unit_range_def)
  have W: "?W < 2 ^ 64" and H: "?H < 2 ^ 64"
    using small by simp_all
  have w: "min ?W (width (lower_mask_size op)) \<le> ?w"
      "?w \<le> min ?W (width (upper_mask_size op))"
    using interpolate_size_eq(2,3) [of "min ?W (width (lower_mask_size op))"
        "min ?W (width (upper_mask_size op))" ?factor] ordered(2) W factor
    by simp_all
  have h: "min ?H (height (lower_mask_size op)) \<le> ?h"
      "?h \<le> min ?H (height (upper_mask_size op))"
    using interpolate_size_eq(2,3) [of "min ?H (height (lower_mask_size op))"
        "min ?H (height (upper_mask_size op))" ?factor] ordered(1) H factor
    by simp_all
  have wW: "?w \<le> ?W" and hH: "?h \<le> ?H"
    using w(2) h(2) by simp_all
  have windows: "size_t_add (size_t_sub ?H ?h) 1 = ?H - ?h + 1"
      "size_t_add (size_t_sub ?W ?w) 1 = ?W - ?w + 1"
    by (rule size_t_window [OF hH small(2)]) (rule size_t_window [OF wW small(1)])
  have fits: "?left + ?w \<le> ?W" "?top + ?h \<le> ?H"
    using offset_fits [OF wW] offset_fits [OF hH] by blast+
  let ?end = "erased_upto ?left ?top ?sz ?noise im (?left + ?w) ?top"
  have erase: "erase_rectangle ?left ?top ?sz ?noise im = Inr ?end"
    by (rule erase_rectangle_eq [of ?left ?sz im ?top ?noise,
          unfolded image_size.select_convs, OF fits W H])
  let ?erased = "snd (snd ?end)"
  let ?xy1 = "(xy_generator op)\<lparr>drawn := Suc (drawn (xy_generator op))\<rparr>"
  let ?xy2 = "(xy_generator op)\<lparr>drawn := Suc (Suc (drawn (xy_generator op)))\<rparr>"
  let ?op' = "?op2\<lparr>xy_generator := ?xy2, noise_generator := fst ?end\<rparr>"
  have op1: "lower_mask_size ?op1 = lower_mask_size op"
      "upper_mask_size ?op1 = upper_mask_size op"
    by simp_all
  have op2: "xy_generator ?op2 = xy_generator op" "noise_generator ?op2 = noise_generator op"
    by simp_all
  have draws: "draw (xy_generator op)
        = (sequence (xy_generator op) (drawn (xy_generator op)), ?xy1)"
      "draw ?xy1 = (sequence (xy_generator op) (Suc (drawn (xy_generator op))), ?xy2)"
    by (simp_all add: draw_def)
  have offsets:
    "size_t_mod (sequence (xy_generator op) (drawn (xy_generator op)))
       (size_t_add (size_t_sub ?H ?h) 1) = Inr ?top"
    "size_t_mod (sequence (xy_generator op) (Suc (drawn (xy_generator op))))
       (size_t_add (size_t_sub ?W ?w) 1) = Inr ?left"
    unfolding windows by (simp_all add: size_t_mod_def)
  have last: "(case ?end of (noise, _, img) \<Rightarrow>
                 Inr (Some img, ?op2\<lparr>xy_generator := ?xy2, noise_generator := noise\<rparr>))
              = Inr (Some ?erased, ?op')"
    by (simp add: split_beta)
  have perform: "RandomEraseOperation_perform op im = Inr (Some ?erased, ?op')"
    by (simp only: RandomEraseOperation_perform_def gate prod.case Let_def not_True_eq_False
        if_False drawn_factor op1 op2 image_size.select_convs draws offsets erase
        bindE_simps last)
  have dims: "getWidth ?erased = ?W" "getHeight ?erased = ?H" "getPixelSize ?erased = ?ps"
    by (simp_all add: erased_upto_def Let_def)
  have pixels: "pixel_at ?erased (x, y)
      = (if ?left \<le> x \<and> x < ?left + ?w \<and> ?top \<le> y \<and> y < ?top + ?h
         then noise_pixel ?noise ?ps ((x - ?left) * ?h + (y - ?top))
         else pixel_at im (x, y))" for x y
    by (rule erased_upto_pixel [of ?left ?top ?sz ?noise im x y,
          unfolded image_size.select_convs])
  have noise: "drawn (noise_generator ?op') = drawn ?noise + ?w * ?h * ?ps"
    by (simp add: erased_upto_def Let_def)
  have xy: "drawn (xy_generator ?op') = drawn (xy_generator op) + 2"
    by simp
  have gen: "drawn (generator ?op') = drawn (generator op) + 2"
    by simp
  show ?thesis
    unfolding Let_def factor_eq
    using w h fits perform dims pixels noise xy gen by blast
qed

theorem random_erase_frame_witness:
  "fst (operate_this_time erase_twos) \<and> unit_range (generator erase_twos)
   \<and> getWidth (constant_image 8 8 1 7) + 1 < 2 ^ 64
   \<and> getHeight (constant_image 8 8 1 7) + 1 < 2 ^ 64
   \<and> height (lower_mask_size erase_twos) \<le> height (upper_mask_size erase_twos)
   \<and> width (lower_mask_size erase_twos) \<le> width (upper_mask_size erase_twos)
   \<and> (\<exists>erased op'.
         RandomEraseOperation_perform erase_twos (constant_image 8 8 1 7)
           = Inr (Some erased, op')
         \<and> (\<forall>x y. pixel_at erased (x, y)
                = (if 5 \<le> x \<and> x < 7 \<and> 5 \<le> y \<and> y < 7 then [9] else [7])))"
proof -
  have fires: "fst (operate_this_time erase_twos)"
    by (simp add: operate_this_time_def draw_def erase_twos_def constant_generator_def)
  have unit: "unit_range (generator erase_twos)"
    by (simp add: unit_range_def erase_twos_def constant_generator_def)
  have small: "getWidth (constant_image 8 8 1 7) + 1 < 2 ^ 64"
      "getHeight (constant_image 8 8 1 7) + 1 < 2 ^ 64"
    by (simp_all add: constant_image_def)
  have ordered: "height (lower_mask_size erase_twos) \<le> height (upper_mask_size erase_twos)"
      "width (lower_mask_size erase_twos) \<le> width (upper_mask_size erase_twos)"
    by (simp_all add: erase_twos_def)
  have sizes: "interpolate_size 2 2 (1/2) = 2"
    by (simp add: interpolate_size_def size_t_sub_def size_t_add_def size_of_int_def
        truncate_to_int_def)
  have factor: "fst (uniform_random_number (snd (operate_this_time erase_twos))) = 1/2"
    by (simp add: uniform_random_number_def operate_this_time_def draw_def split_beta
        erase_twos_def constant_generator_def)
  have fields: "lower_mask_size erase_twos = \<lparr>height = 2, width = 2\<rparr>"
      "upper_mask_size erase_twos = \<lparr>height = 2, width = 2\<rparr>"
      "xy_generator erase_twos = constant_generator 5"
      "noise_generator erase_twos = constant_generator 9"
    by (simp_all add: erase_twos_def)
  have "\<exists>erased op'.
         RandomEraseOperation_perform erase_twos (constant_image 8 8 1 7)
           = Inr (Some erased, op')
         \<and> (\<forall>x y. pixel_at erased (x, y)
                = (if 5 \<le> x \<and> x < 7 \<and> 5 \<le> y \<and> y < 7 then [9] else [7]))"
    using random_erase_frame [OF fires unit small ordered]
    unfolding Let_def factor fields
    by (simp add: constant_image_def sizes noise_pixel_def constant_generator_def
        cong: if_cong) auto
  with fires unit small ordered show ?thesis
    by blast
qed

section \<open>Box blur\<close>

text \<open>
  C1 fails on the code for an even kernel length. The sliding loop starts its entering
  index at \<open>length / 2 + 1\<close>, one past the end of the first window when the length is
  even. On the column 0, 0, 200 with length 2 perform gives 0, 100, 200, the direct
  convolution 0, 0, 100.
\<close>

theorem box_blur_even_length_differs:
  "BoxBlurOperation_perform example_class
     \<lparr>probability = 1, generator = constant_generator (1/2),
      box_filter = \<lparr>filter_length = 2\<rparr>\<rparr> step_column
   = Inr (Some \<lparr>getWidth = 1, getHeight = 3, getPixelSize = 1, getColorSpace = 0,
                pixel_at = (\<lambda>p. if p = (0, 2) then [200] else [0])
                  ((0, 0) := [0], (0, 1) := [100], (0, 2) := [200])\<rparr>,
          \<lparr>probability = 1, generator = (constant_generator (1/2))\<lparr>drawn := 1\<rparr>,
           box_filter = \<lparr>filter_length = 2\<rparr>\<rparr>)
   \<and> map (\<lambda>y. pixel_at (direct_box_blur 2 step_column) (0, y)) [0, 1, 2]
     = [[0], [0], [100]]"
  apply (simp add: BoxBlurOperation_perform_def operate_this_time_def draw_def
      constant_generator_def box_blur_passes_def box_blur_line_def Let_def upt_rec
      getPixel_def setPixel_def Image_new_def example_class_def step_column_def
      clamp_to_edge_def size_of_int_def size_t_sub_def accumulator_new_def
      accumulator_add_def accumulator_shift_def accumulator_div_def
      direct_box_blur_def direct_box_at_def)
  apply (simp add: numeral_2_eq_2)
  done

lemma length_window_start [simp]: "length (window_start len ps line n m) = ps"
  by (simp add: window_start_def)

lemma window_start_0: "window_start len ps line n 0 = accumulator_new ps"
  by (simp add: window_start_def accumulator_new_def map_replicate_const)

lemma accumulator_add_window:
  assumes "ps \<le> length (line (clamp_to_edge (int m - int (len div 2)) n))"
  shows "accumulator_add (window_start len ps line n m)
           (line (clamp_to_edge (int m - int (len div 2)) n))
         = Inr (window_start len ps line n (Suc m))"
  using assms
  by (auto simp: accumulator_add_def window_start_def intro!: nth_equalityI)

lemma length_sliding_sums [simp]:
  "(\<And>i. i < n \<Longrightarrow> ps \<le> length (line i)) \<Longrightarrow> 0 < n \<Longrightarrow> n < 2 ^ 64 \<Longrightarrow> j < n
   \<Longrightarrow> length (sliding_sums len ps line n j) = ps"
proof (induction j)
  case 0
  then show ?case by simp
next
  case (Suc j)
  have a: "size_of_int (max (int j - int (len div 2)) 0) < n"
    using Suc.prems by (auto simp: size_of_int_def max_def)
  have "size_t_sub n 1 = n - 1"
    using Suc.prems by (simp add: size_t_sub_le)
  then have b: "min (len div 2 + 1 + j) (size_t_sub n 1) < n"
    using Suc.prems by simp
  show ?case
    using Suc a b Suc.prems(1) [OF a] Suc.prems(1) [OF b] by simp
qed

lemma written_upto_dims [simp]:
  "getWidth (written_upto pos out target m) = getWidth target"
  "getHeight (written_upto pos out target m) = getHeight target"
  by (induction m) simp_all

lemma size_t_pred_less: "0 < n \<Longrightarrow> size_t_sub n 1 < n"
proof (cases "n < 2 ^ 64")
  case True
  assume "0 < n"
  with True show ?thesis
    by (simp add: size_t_sub_le)
next
  case False
  have "size_t_sub n 1 < 2 ^ 64"
    unfolding size_t_sub_def by (rule mod_less_divisor) simp
  with False show ?thesis
    by linarith
qed

lemma clamp_to_edge_less: "0 < n \<Longrightarrow> clamp_to_edge y n < n"
  using size_t_pred_less [of n] by (simp add: clamp_to_edge_def min_def)

lemma accumulator_div_eq:
  "denominator \<noteq> 0 \<Longrightarrow>
   accumulator_div values denominator = Inr (map (\<lambda>a. ucast (a div denominator)) values)"
  by (simp add: accumulator_div_def)

lemma accumulator_shift_eq:
  "length values \<le> length del \<Longrightarrow> length values \<le> length add \<Longrightarrow>
   accumulator_shift values del add
     = Inr (map (\<lambda>(a, d, v). a + ucast v - ucast d) (zip values (zip del add)))"
  by (simp add: accumulator_shift_def)

lemma setPixel_eq:
  "x < getWidth t \<Longrightarrow> y < getHeight t \<Longrightarrow>
   setPixel t x y q = Inr (t\<lparr>pixel_at := (pixel_at t)((x, y) := q)\<rparr>)"
  by (simp add: setPixel_def)

lemma box_blur_first_loop:
  assumes n: "0 < n"
    and len: "0 < len" "word_of_nat len \<noteq> (0 :: u64)"
    and reads: "\<And>i. i < n \<Longrightarrow> read i = Inr (line i)"
    and lens: "\<And>i. i < n \<Longrightarrow> ps \<le> length (line i)"
    and writes: "\<And>j q t. write j q t = setPixel t (fst (pos j)) (snd (pos j)) q"
    and inside: "fst (pos 0) < getWidth target" "snd (pos 0) < getHeight target"
  shows "for_each [0..<len] (\<lambda>k (y0, acc, target).
          bindE (read (clamp_to_edge y0 n)) (\<lambda>px.
          bindE (accumulator_add acc px) (\<lambda>acc.
          bindE (accumulator_div acc (word_of_nat len)) (\<lambda>q.
          bindE (write 0 q target) (\<lambda>target.
          Inr (y0 + 1, acc, target))))))
        (- int (len div 2), accumulator_new ps, target)
       = Inr (int len - int (len div 2), window_start len ps line n len,
              written_upto pos (sliding_output len ps line n) target 1)"
proof -
  let ?body = "\<lambda>k (y0, acc, target).
          bindE (read (clamp_to_edge y0 n)) (\<lambda>px.
          bindE (accumulator_add acc px) (\<lambda>acc.
          bindE (accumulator_div acc (word_of_nat len)) (\<lambda>q.
          bindE (write 0 q target) (\<lambda>target.
          Inr (y0 + 1, acc, target)))))"
  let ?q = "\<lambda>k. map (\<lambda>a. ucast (a div (word_of_nat len :: u64))) (window_start len ps line n k)"
  let ?F = "\<lambda>k. (int k - int (len div 2), window_start len ps line n k,
                 if k = 0 then target
                 else target\<lparr>pixel_at := (pixel_at target)(pos 0 := ?q k)\<rparr>)"
  have step: "?body k (?F k) = Inr (?F (Suc k))" for k
  proof -
    let ?i = "clamp_to_edge (int k - int (len div 2)) n"
    have i: "?i < n"
      using n by (rule clamp_to_edge_less)
    have add: "accumulator_add (window_start len ps line n k) (line ?i)
        = Inr (window_start len ps line n (Suc k))"
      using lens [OF i] by (rule accumulator_add_window)
    have div: "accumulator_div (window_start len ps line n (Suc k)) (word_of_nat len)
        = Inr (?q (Suc k))"
      using len(2) by (rule accumulator_div_eq)
    have written: "write 0 (?q (Suc k)) (if k = 0 then target
                 else target\<lparr>pixel_at := (pixel_at target)(pos 0 := ?q k)\<rparr>)
        = Inr (target\<lparr>pixel_at := (pixel_at target)(pos 0 := ?q (Suc k))\<rparr>)"
      using inside by (cases "pos 0") (simp add: writes setPixel_eq)
    show ?thesis
      by (simp add: reads [OF i] add div written del: upt_Suc)
  qed
  have "for_each [0..<len] ?body (?F 0) = Inr (?F len)"
    by (rule for_each_steps) (simp, rule step)
  moreover have "?F 0 = (- int (len div 2), accumulator_new ps, target)"
    by (simp add: window_start_0)
  moreover have "?F len = (int len - int (len div 2), window_start len ps line n len,
              written_upto pos (sliding_output len ps line n) target 1)"
    using len(1) by (simp add: sliding_output_def)
  ultimately show ?thesis
    by simp
qed

lemma box_blur_second_loop:
  assumes n: "0 < n" "n < 2 ^ 64"
    and len: "word_of_nat len \<noteq> (0 :: u64)"
    and reads: "\<And>i. i < n \<Longrightarrow> read i = Inr (line i)"
    and lens: "\<And>i. i < n \<Longrightarrow> ps \<le> length (line i)"
    and writes: "\<And>j q t. write j q t = setPixel t (fst (pos j)) (snd (pos j)) q"
    and inside: "\<And>j. j < n \<Longrightarrow> fst (pos j) < getWidth target \<and> snd (pos j) < getHeight target"
  shows "for_each [1..<n] (\<lambda>j (y_del, y_add, acc, target).
               let prev = size_of_int (max y_del 0);
                   next = min y_add (size_t_sub n 1)
               in bindE (read prev) (\<lambda>del.
                  bindE (read next) (\<lambda>add.
                  bindE (accumulator_shift acc del add) (\<lambda>acc.
                  bindE (accumulator_div acc (word_of_nat len)) (\<lambda>q.
                  bindE (write j q target) (\<lambda>target.
                  Inr (y_del + 1, y_add + 1, acc, target)))))))
             (- int (len div 2), len div 2 + 1, sliding_sums len ps line n 0,
              written_upto pos (sliding_output len ps line n) target 1)
         = Inr (int (n - 1) - int (len div 2), len div 2 + 1 + (n - 1),
                sliding_sums len ps line n (n - 1),
                written_upto pos (sliding_output len ps line n) target n)"
proof -
  let ?body = "\<lambda>j (y_del, y_add, acc, target).
               let prev = size_of_int (max y_del 0);
                   next = min y_add (size_t_sub n 1)
               in bindE (read prev) (\<lambda>del.
                  bindE (read next) (\<lambda>add.
                  bindE (accumulator_shift acc del add) (\<lambda>acc.
                  bindE (accumulator_div acc (word_of_nat len)) (\<lambda>q.
                  bindE (write j q target) (\<lambda>target.
                  Inr (y_del + 1, y_add + 1, acc, target))))))"
  let ?out = "sliding_output len ps line n"
  let ?F = "\<lambda>j. (int (j - 1) - int (len div 2), len div 2 + 1 + (j - 1),
                 sliding_sums len ps line n (j - 1), written_upto pos ?out target j)"
  have pred: "size_t_sub n 1 = n - 1"
    using n by (simp add: size_t_sub_le)
  have step: "?body j (?F j) = Inr (?F (Suc j))" if j: "1 \<le> j" "j < n" for j
  proof -
    obtain i where i: "j = Suc i"
      using j(1) by (cases j) auto
    let ?prev = "size_of_int (max (int i - int (len div 2)) 0)"
    let ?next = "min (len div 2 + 1 + i) (size_t_sub n 1)"
    have "max (int i - int (len div 2)) 0 \<le> int i"
      by simp
    then have "?prev \<le> i"
      using j(2) n(2) i by (simp add: size_of_int_nat)
    then have prev: "?prev < n"
      using j(2) i by simp
    have next_inside: "?next < n"
      using n(1) pred by simp
    have acc: "length (sliding_sums len ps line n i) = ps"
      using length_sliding_sums [of n ps line i len] lens n j(2) i by simp
    have shift: "accumulator_shift (sliding_sums len ps line n i) (line ?prev) (line ?next)
        = Inr (sliding_sums len ps line n (Suc i))"
      using lens [OF prev] lens [OF next_inside] acc by (simp add: accumulator_shift_eq)
    have div: "accumulator_div (sliding_sums len ps line n (Suc i)) (word_of_nat len)
        = Inr (?out (Suc i))"
      using len by (simp add: accumulator_div_eq sliding_output_def)
    have written: "write (Suc i) (?out (Suc i)) (written_upto pos ?out target (Suc i))
        = Inr (written_upto pos ?out target (Suc (Suc i)))"
      using inside [of "Suc i"] j(2) i
      by (cases "pos (Suc i)") (simp add: writes setPixel_eq)
    show ?thesis
      unfolding i
      using reads [OF prev] reads [OF next_inside] shift div written
      by (simp add: Let_def del: sliding_sums.simps written_upto.simps)
  qed
  have "for_each [1..<n] ?body (?F 1) = Inr (?F n)"
    by (rule for_each_steps) (use n in simp, rule step)
  then show ?thesis
    by simp
qed

lemma box_blur_line_eq:
  assumes n: "0 < n" "n < 2 ^ 64"
    and len: "0 < len" "word_of_nat len \<noteq> (0 :: u64)"
    and reads: "\<And>i. i < n \<Longrightarrow> read i = Inr (line i)"
    and lens: "\<And>i. i < n \<Longrightarrow> ps \<le> length (line i)"
    and writes: "\<And>j q t. write j q t = setPixel t (fst (pos j)) (snd (pos j)) q"
    and inside: "\<And>j. j < n \<Longrightarrow> fst (pos j) < getWidth target \<and> snd (pos j) < getHeight target"
  shows "box_blur_line len ps n read write target
         = Inr (written_upto pos (sliding_output len ps line n) target n)"
  unfolding box_blur_line_def
  by (simp only: box_blur_first_loop [of n len read line ps "write" pos target,
        OF n(1) len reads lens writes inside [OF n(1), THEN conjunct1]
          inside [OF n(1), THEN conjunct2]]
      bindE_simps prod.case
      box_blur_second_loop [of n len read line ps "write" pos target,
        OF n len(2) reads lens writes inside, unfolded sliding_sums.simps])

lemma sum_list_shift:
  fixes g :: "nat \<Rightarrow> 'a :: comm_ring_1"
  shows "(\<Sum>t\<leftarrow>[0..<m]. g (Suc t)) = (\<Sum>t\<leftarrow>[0..<m]. g t) + g m - g 0"
  by (induction m) simp_all

lemma clamp_low:
  assumes "y \<le> int i" "i < n" "n < 2 ^ 64"
  shows "clamp_to_edge y n = size_of_int (max y 0)"
proof -
  have "max y 0 \<le> int i"
    using assms(1) by simp
  moreover have "int i < 2 ^ 64"
    using assms(2,3) by simp
  ultimately have "size_of_int (max y 0) \<le> i"
    by (simp add: size_of_int_nat)
  moreover have "size_t_sub n 1 = n - 1"
    using assms(2,3) by (simp add: size_t_sub_le)
  ultimately show ?thesis
    using assms(2) by (simp add: clamp_to_edge_def)
qed

lemma clamp_high:
  assumes "0 < n" "n < 2 ^ 64" "m < 2 ^ 64"
  shows "clamp_to_edge (int m) n = min m (size_t_sub n 1)"
  using assms by (simp add: clamp_to_edge_def size_of_int_nat)

lemma sliding_sums_odd:
  assumes n: "0 < n" "n < 2 ^ 63"
    and odd: "odd len" and small: "len < 2 ^ 56"
    and lens: "\<And>i. i < n \<Longrightarrow> ps \<le> length (line i)"
    and j: "j < n"
  shows "sliding_sums len ps line n j
         = map (\<lambda>c. \<Sum>t\<leftarrow>[0..<len].
                   ucast (line (clamp_to_edge (int j - int (len div 2) + int t) n) ! c))
             [0..<ps]"
  using j
proof (induction j)
  case 0
  then show ?case
    by (simp add: window_start_def add.commute diff_add_eq)
next
  case (Suc j)
  let ?r = "len div 2"
  have n64: "n < 2 ^ 64"
    using n(2) by simp
  have len: "len = Suc (2 * ?r)"
    using odd by (auto elim: oddE)
  let ?prev = "size_of_int (max (int j - int ?r) 0)"
  let ?next = "min (?r + 1 + j) (size_t_sub n 1)"
  have prev: "clamp_to_edge (int j - int ?r + int 0) n = ?prev"
    using clamp_low [of "int j - int ?r" j n] Suc.prems n64 by simp
  have "?r + 1 + j < 2 ^ 64"
    using small Suc.prems n(2) by simp
  then have high: "clamp_to_edge (int (?r + 1 + j)) n = ?next"
    using n(1) n64 by (intro clamp_high)
  have "int len = 2 * int ?r + 1"
    using len by linarith
  then have idx: "int j - int ?r + int len = int (?r + 1 + j)"
    by simp
  have next_eq: "clamp_to_edge (int j - int ?r + int len) n = ?next"
    unfolding idx by (rule high)
  have IH: "sliding_sums len ps line n j
         = map (\<lambda>c. \<Sum>t\<leftarrow>[0..<len].
                   ucast (line (clamp_to_edge (int j - int ?r + int t) n) ! c)) [0..<ps]"
    using Suc by simp
  have prev_lt: "?prev < n" and next_lt: "?next < n"
    using clamp_to_edge_less [OF n(1)] prev [symmetric] next_eq [symmetric] by simp_all
  have length_next: "length (sliding_sums len ps line n (Suc j)) = ps"
    by (rule length_sliding_sums [OF lens n(1) n64 Suc.prems])
  show ?case
  proof (rule nth_equalityI)
    show "length (sliding_sums len ps line n (Suc j))
        = length (map (\<lambda>c. \<Sum>t\<leftarrow>[0..<len].
             ucast (line (clamp_to_edge (int (Suc j) - int ?r + int t) n) ! c)) [0..<ps])"
      by (simp only: length_next length_map length_upt diff_zero)
  next
    fix c assume "c < length (sliding_sums len ps line n (Suc j))"
    then have c: "c < ps"
      by (simp only: length_next)
    let ?g = "\<lambda>t. (ucast (line (clamp_to_edge (int j - int ?r + int t) n) ! c) :: u64)"
    have "(\<Sum>t\<leftarrow>[0..<len]. ?g (Suc t)) = (\<Sum>t\<leftarrow>[0..<len]. ?g t) + ?g len - ?g 0"
      by (rule sum_list_shift)
    moreover have "?g (Suc t) = ucast (line (clamp_to_edge (int (Suc j) - int ?r + int t) n) ! c)"
      for t
      by (simp add: algebra_simps)
    ultimately have shifted:
      "(\<Sum>t\<leftarrow>[0..<len]. (ucast (line (clamp_to_edge (int (Suc j) - int ?r + int t) n) ! c) :: u64))
       = (\<Sum>t\<leftarrow>[0..<len]. ?g t) + ucast (line ?next ! c) - ucast (line ?prev ! c)"
      unfolding prev next_eq by simp
    have "sliding_sums len ps line n (Suc j) ! c
        = (\<Sum>t\<leftarrow>[0..<len]. ?g t) + ucast (line ?next ! c) - ucast (line ?prev ! c)"
      using c lens [OF prev_lt] lens [OF next_lt] by (simp add: IH)
    with shifted c
    show "sliding_sums len ps line n (Suc j) ! c
        = map (\<lambda>c. \<Sum>t\<leftarrow>[0..<len].
             ucast (line (clamp_to_edge (int (Suc j) - int ?r + int t) n) ! c)) [0..<ps] ! c"
      by simp
  qed
qed

lemma unat_u8_le: "unat (x :: u8) \<le> 255"
  using unsigned_less [of x, where 'a = nat] by simp

lemma unat_ucast_u8: "unat (ucast (x :: u8) :: u64) = unat x"
proof -
  have "unat x < 2 ^ 64"
    using unat_u8_le [of x] by simp
  then show ?thesis
    by (simp add: unsigned_ucast_eq take_bit_nat_eq_self)
qed

lemma unat_sum_channels:
  fixes f :: "nat \<Rightarrow> u8"
  assumes "m < 2 ^ 56"
  shows "unat (\<Sum>t\<leftarrow>[0..<m]. (ucast (f t) :: u64)) = (\<Sum>t\<leftarrow>[0..<m]. unat (f t))
         \<and> (\<Sum>t\<leftarrow>[0..<m]. unat (f t)) \<le> 255 * m"
  using assms
proof (induction m)
  case 0
  then show ?case by simp
next
  case (Suc m)
  then have IH: "unat (\<Sum>t\<leftarrow>[0..<m]. (ucast (f t) :: u64)) = (\<Sum>t\<leftarrow>[0..<m]. unat (f t))"
      "(\<Sum>t\<leftarrow>[0..<m]. unat (f t)) \<le> 255 * m"
    by simp_all
  have last: "unat (ucast (f m) :: u64) = unat (f m)" "unat (f m) \<le> 255"
    by (simp_all add: unat_ucast_u8 unat_u8_le)
  have "255 * m + 255 < (2 :: nat) ^ 64"
    using Suc.prems by simp
  then have "unat (\<Sum>t\<leftarrow>[0..<m]. (ucast (f t) :: u64)) + unat (ucast (f m) :: u64)
      < 2 ^ LENGTH(64)"
    using IH last by simp
  then have "unat ((\<Sum>t\<leftarrow>[0..<m]. (ucast (f t) :: u64)) + ucast (f m))
      = (\<Sum>t\<leftarrow>[0..<m]. unat (f t)) + unat (f m)"
    using IH(1) last(1) by (simp only: unat_add_lem [THEN iffD1])
  then show ?case
    using IH(2) last(2) by simp
qed

lemma sliding_output_odd:
  assumes n: "0 < n" "n < 2 ^ 63"
    and odd: "odd len" and small: "len < 2 ^ 56"
    and lens: "\<And>i. i < n \<Longrightarrow> ps \<le> length (line i)"
    and j: "j < n"
  shows "sliding_output len ps line n j = direct_box_at len ps line n j"
proof -
  have len: "unat (word_of_nat len :: u64) = len"
    using small by (simp add: unat_of_nat)
  have "(ucast ((\<Sum>t\<leftarrow>[0..<len]. (ucast (f t) :: u64)) div word_of_nat len) :: u8)
        = word_of_nat ((\<Sum>t\<leftarrow>[0..<len]. unat (f t)) div len)" for f :: "nat \<Rightarrow> u8"
  proof -
    have "unat ((\<Sum>t\<leftarrow>[0..<len]. (ucast (f t) :: u64)) div word_of_nat len)
          = (\<Sum>t\<leftarrow>[0..<len]. unat (f t)) div len"
      using unat_sum_channels [OF small, of f] by (simp add: unat_div len)
    moreover have "(ucast w :: u8) = word_of_nat (unat w)" for w :: u64
      by simp
    ultimately show ?thesis
      by (simp only:)
  qed
  note key = this
  have sums: "sliding_sums len ps line n j
        = map (\<lambda>c. \<Sum>t\<leftarrow>[0..<len].
                   (ucast (line (clamp_to_edge (int j - int (len div 2) + int t) n) ! c)
                     :: u64))
            [0..<ps]"
    by (rule sliding_sums_odd [OF n odd small _ j]) (rule lens)
  have "sliding_output len ps line n j
        = map (\<lambda>a. ucast (a div word_of_nat len))
            (map (\<lambda>c. \<Sum>t\<leftarrow>[0..<len].
                   (ucast (line (clamp_to_edge (int j - int (len div 2) + int t) n) ! c)
                     :: u64))
               [0..<ps])"
    unfolding sliding_output_def sums ..
  also have "\<dots> = direct_box_at len ps line n j"
    by (simp add: direct_box_at_def key o_def)
  finally show ?thesis .
qed

lemma written_column:
  "written_upto (\<lambda>j. (i, j)) out t m
   = t\<lparr>pixel_at := (\<lambda>(x, y). if x = i \<and> y < m then out y else pixel_at t (x, y))\<rparr>"
proof (induction m)
  case 0
  then show ?case by simp
next
  case (Suc m)
  have "(\<lambda>(x, y). if x = i \<and> y < m then out y else pixel_at t (x, y))((i, m) := out m)
        = (\<lambda>(x, y). if x = i \<and> y < Suc m then out y else pixel_at t (x, y))"
    by (auto simp: fun_eq_iff less_Suc_eq)
  with Suc show ?case by simp
qed

lemma written_row:
  "written_upto (\<lambda>i. (i, j)) out t m
   = t\<lparr>pixel_at := (\<lambda>(x, y). if y = j \<and> x < m then out x else pixel_at t (x, y))\<rparr>"
proof (induction m)
  case 0
  then show ?case by simp
next
  case (Suc m)
  have "(\<lambda>(x, y). if y = j \<and> x < m then out x else pixel_at t (x, y))((m, j) := out m)
        = (\<lambda>(x, y). if y = j \<and> x < Suc m then out x else pixel_at t (x, y))"
    by (auto simp: fun_eq_iff less_Suc_eq)
  with Suc show ?case by simp
qed

lemma length_sliding_output:
  "(\<And>i. i < n \<Longrightarrow> ps \<le> length (line i)) \<Longrightarrow> 0 < n \<Longrightarrow> n < 2 ^ 64 \<Longrightarrow> j < n
   \<Longrightarrow> length (sliding_output len ps line n j) = ps"
  by (simp add: sliding_output_def)

lemma box_blur_passes_eq:
  assumes W: "0 < getWidth im" "getWidth im < 2 ^ 64"
    and H: "0 < getHeight im" "getHeight im < 2 ^ 64"
    and len: "0 < len" "word_of_nat len \<noteq> (0 :: u64)"
    and lens: "\<And>x y. x < getWidth im \<Longrightarrow> y < getHeight im
                 \<Longrightarrow> getPixelSize im \<le> length (pixel_at im (x, y))"
  shows "box_blur_passes I len im
         = Inr (rows_blurred len
                  (columns_blurred len im
                     (Image_new I (getWidth im) (getHeight im) (getPixelSize im)
                        (getColorSpace im)) (getWidth im))
                  im (getHeight im))"
proof -
  let ?W = "getWidth im" and ?H = "getHeight im" and ?ps = "getPixelSize im"
  let ?new = "Image_new I ?W ?H ?ps (getColorSpace im)"
  let ?C = "columns_blurred len im ?new"
  let ?T = "?C ?W"
  let ?R = "rows_blurred len ?T im"
  have column: "box_blur_line len ?ps ?H (\<lambda>y. getPixel im i y)
                  (\<lambda>j q transient. setPixel transient i j q) (?C i) = Inr (?C (Suc i))"
    if i: "i < ?W" for i
  proof -
    have "box_blur_line len ?ps ?H (\<lambda>y. getPixel im i y)
            (\<lambda>j q transient. setPixel transient i j q) (?C i)
          = Inr (written_upto (\<lambda>j. (i, j))
                   (sliding_output len ?ps (\<lambda>y. pixel_at im (i, y)) ?H) (?C i) ?H)"
      by (rule box_blur_line_eq [OF H len])
        (use i lens in \<open>simp_all add: getPixel_def columns_blurred_def Image_new_def\<close>)
    moreover have "written_upto (\<lambda>j. (i, j))
                   (sliding_output len ?ps (\<lambda>y. pixel_at im (i, y)) ?H) (?C i) ?H
                 = ?C (Suc i)"
      unfolding written_column columns_blurred_def
      by (auto simp: fun_eq_iff less_Suc_eq)
    ultimately show ?thesis by simp
  qed
  have first: "for_each [0..<?W] (\<lambda>i.
              box_blur_line len ?ps ?H (\<lambda>y. getPixel im i y)
                (\<lambda>j q transient. setPixel transient i j q)) (?C 0) = Inr ?T"
    by (rule for_each_steps) (simp, rule column, simp)
  have start: "?C 0 = ?new"
    by (simp add: columns_blurred_def)
  have T_dims: "getWidth ?T = ?W" "getHeight ?T = ?H"
    by (simp_all add: columns_blurred_def Image_new_def)
  have T_pixel: "pixel_at ?T (x, y)
      = sliding_output len ?ps (\<lambda>y'. pixel_at im (x, y')) ?H y"
    if "x < ?W" "y < ?H" for x y
    using that by (simp add: columns_blurred_def)
  have T_len: "?ps \<le> length (pixel_at ?T (x, y))" if "x < ?W" "y < ?H" for x y
    using length_sliding_output [of ?H ?ps "\<lambda>y'. pixel_at im (x, y')" y len] that lens H
    by (simp add: T_pixel)
  have row: "box_blur_line len ?ps ?W (\<lambda>x. getPixel ?T x j)
               (\<lambda>i q img. setPixel img i j q) (?R j) = Inr (?R (Suc j))"
    if j: "j < ?H" for j
  proof -
    have "box_blur_line len ?ps ?W (\<lambda>x. getPixel ?T x j)
            (\<lambda>i q img. setPixel img i j q) (?R j)
          = Inr (written_upto (\<lambda>i. (i, j))
                   (sliding_output len ?ps (\<lambda>x. pixel_at ?T (x, j)) ?W) (?R j) ?W)"
      by (rule box_blur_line_eq [OF W len])
        (use j T_len T_dims in \<open>simp_all add: getPixel_def rows_blurred_def\<close>)
    moreover have "written_upto (\<lambda>i. (i, j))
                   (sliding_output len ?ps (\<lambda>x. pixel_at ?T (x, j)) ?W) (?R j) ?W
                 = ?R (Suc j)"
      unfolding written_row rows_blurred_def
      by (auto simp: fun_eq_iff less_Suc_eq)
    ultimately show ?thesis by simp
  qed
  have second: "for_each [0..<?H] (\<lambda>j.
              box_blur_line len ?ps ?W (\<lambda>x. getPixel ?T x j)
                (\<lambda>i q img. setPixel img i j q)) (?R 0) = Inr (?R ?H)"
    by (rule for_each_steps) (simp, rule row, simp)
  have R0: "?R 0 = im"
    by (simp add: rows_blurred_def)
  show ?thesis
    unfolding box_blur_passes_def Let_def
    using first second by (simp only: start R0 bindE_simps)
qed

lemma direct_box_at_cong:
  assumes "0 < n" "\<And>i. i < n \<Longrightarrow> line1 i = line2 i"
  shows "direct_box_at k ps line1 n pos = direct_box_at k ps line2 n pos"
  using assms by (simp add: direct_box_at_def clamp_to_edge_less)

lemma word_of_nat_nonzero: "0 < len \<Longrightarrow> len < 2 ^ 56 \<Longrightarrow> word_of_nat len \<noteq> (0 :: u64)"
proof
  assume "0 < len" "len < 2 ^ 56" "word_of_nat len = (0 :: u64)"
  then have "unat (word_of_nat len :: u64) = 0"
    by simp
  moreover have "unat (word_of_nat len :: u64) = len"
    using \<open>len < 2 ^ 56\<close> by (simp add: unat_of_nat)
  ultimately show False
    using \<open>0 < len\<close> by simp
qed

lemma rows_blurred_odd:
  assumes W: "0 < getWidth im" "getWidth im < 2 ^ 63"
    and H: "0 < getHeight im" "getHeight im < 2 ^ 63"
    and odd: "odd len" and small: "len < 2 ^ 56"
    and lens: "\<And>x y. x < getWidth im \<Longrightarrow> y < getHeight im
                 \<Longrightarrow> getPixelSize im \<le> length (pixel_at im (x, y))"
  shows "rows_blurred len (columns_blurred len im transient (getWidth im)) im (getHeight im)
         = direct_box_blur len im"
proof -
  let ?W = "getWidth im" and ?H = "getHeight im" and ?ps = "getPixelSize im"
  let ?T = "columns_blurred len im transient ?W"
  have H64: "?H < 2 ^ 64"
    using H(2) by simp
  have column: "pixel_at ?T (x, y) = direct_box_at len ?ps (\<lambda>y'. pixel_at im (x, y')) ?H y"
    if "x < ?W" "y < ?H" for x y
    using that sliding_output_odd [OF H odd small, of ?ps "\<lambda>y'. pixel_at im (x, y')" y] lens
    by (simp add: columns_blurred_def)
  have T_len: "?ps \<le> length (pixel_at ?T (x, y))" if "x < ?W" "y < ?H" for x y
    using that by (simp add: column direct_box_at_def)
  have "sliding_output len ?ps (\<lambda>x'. pixel_at ?T (x', y)) ?W x
        = direct_box_at len ?ps
            (\<lambda>x'. direct_box_at len ?ps (\<lambda>y'. pixel_at im (x', y')) ?H y) ?W x"
    if "x < ?W" "y < ?H" for x y
  proof -
    have "sliding_output len ?ps (\<lambda>x'. pixel_at ?T (x', y)) ?W x
          = direct_box_at len ?ps (\<lambda>x'. pixel_at ?T (x', y)) ?W x"
      using sliding_output_odd [OF W odd small, of ?ps "\<lambda>x'. pixel_at ?T (x', y)" x]
        T_len that by simp
    also have "\<dots> = direct_box_at len ?ps
            (\<lambda>x'. direct_box_at len ?ps (\<lambda>y'. pixel_at im (x', y')) ?H y) ?W x"
      by (rule direct_box_at_cong) (use W that column in simp_all)
    finally show ?thesis .
  qed
  then show ?thesis
    unfolding rows_blurred_def direct_box_blur_def Let_def
    by (intro pixel_at_update_cong) (auto simp: split_beta)
qed

text \<open>
  For an odd kernel length the sliding window is the direct convolution: when the gate
  fires, the length is odd (and below \<open>2 ^ 56\<close>, so that no 64-bit sum overflows),
  the image is not empty and its pixels have the image's pixel size, perform returns
  exactly the direct box convolution of the image.
\<close>

theorem box_blur_odd_length_direct:
  assumes fires: "fst (operate_this_time op)"
    and odd: "odd (filter_length (box_filter op))"
    and small: "filter_length (box_filter op) < 2 ^ 56"
    and W: "0 < getWidth im" "getWidth im < 2 ^ 63"
    and H: "0 < getHeight im" "getHeight im < 2 ^ 63"
    and lens: "\<forall>x y. x < getWidth im \<longrightarrow> y < getHeight im
                 \<longrightarrow> length (pixel_at im (x, y)) = getPixelSize im"
  shows "BoxBlurOperation_perform I op im
         = Inr (Some (direct_box_blur (filter_length (box_filter op)) im),
                snd (operate_this_time op))"
proof -
  let ?len = "filter_length (box_filter op)"
  have pos: "0 < ?len"
    using odd by (cases "?len = 0") simp_all
  have nonzero: "word_of_nat ?len \<noteq> (0 :: u64)"
    using pos small by (rule word_of_nat_nonzero)
  have W64: "getWidth im < 2 ^ 64" and H64: "getHeight im < 2 ^ 64"
    using W(2) H(2) by simp_all
  have lens': "getPixelSize im \<le> length (pixel_at im (x, y))"
    if "x < getWidth im" "y < getHeight im" for x y
    using lens that by simp
  have "box_blur_passes I ?len im = Inr (direct_box_blur ?len im)"
    using box_blur_passes_eq [OF W(1) W64 H(1) H64 pos nonzero lens', of I]
      rows_blurred_odd [OF W H odd small lens']
    by simp
  then show ?thesis
    using fires by (simp add: BoxBlurOperation_perform_def split_beta gate_state)
qed

lemma sum_list_constant:
  fixes a :: "'a :: semiring_1"
  shows "(\<Sum>t\<leftarrow>[0..<m]. a) = of_nat m * a"
  by (induction m) (simp_all add: algebra_simps)

lemma sliding_sums_flat:
  assumes n: "0 < n" "n < 2 ^ 64"
    and flat: "\<And>i. i < n \<Longrightarrow> line i = replicate ps c"
    and j: "j < n"
  shows "sliding_sums len ps line n j = replicate ps (word_of_nat len * ucast c)"
  using j
proof (induction j)
  case 0
  have "line (clamp_to_edge y n) = replicate ps c" for y
    using flat clamp_to_edge_less [OF n(1)] by simp
  then have "window_start len ps line n len
      = map (\<lambda>k. \<Sum>t\<leftarrow>[0..<len]. (ucast c :: u64)) [0..<ps]"
    by (simp add: window_start_def)
  then show ?case
    by (simp add: sum_list_replicate map_replicate_const)
next
  case (Suc j)
  let ?prev = "size_of_int (max (int j - int (len div 2)) 0)"
  let ?next = "min (len div 2 + 1 + j) (size_t_sub n 1)"
  have "max (int j - int (len div 2)) 0 \<le> int j"
    by simp
  then have "?prev \<le> j"
    using Suc.prems n(2) by (simp add: size_of_int_nat)
  then have prev: "line ?prev = replicate ps c"
    using Suc.prems flat by simp
  have "size_t_sub n 1 = n - 1"
    using n by (simp add: size_t_sub_le)
  then have "?next < n"
    using n(1) by simp
  then have next_eq: "line ?next = replicate ps c"
    using flat by simp
  have "sliding_sums len ps line n j = replicate ps (word_of_nat len * ucast c)"
    using Suc by simp
  then show ?case
    using prev next_eq by (simp add: zip_replicate)
qed

lemma sliding_output_flat:
  assumes n: "0 < n" "n < 2 ^ 64"
    and len: "0 < len" "len < 2 ^ 56"
    and flat: "\<And>i. i < n \<Longrightarrow> line i = replicate ps c"
    and j: "j < n"
  shows "sliding_output len ps line n j = replicate ps c"
proof -
  have l: "unat (word_of_nat len :: u64) = len"
    using len(2) by (simp add: unat_of_nat)
  have "len * unat c \<le> len * 255"
    using unat_u8_le [of c] by simp
  also have "\<dots> < 2 ^ 64"
    using len(2) by simp
  finally have "unat (word_of_nat len :: u64) * unat (ucast c :: u64) < 2 ^ LENGTH(64)"
    by (simp add: l unat_ucast_u8)
  then have "unat (word_of_nat len * ucast c :: u64) = len * unat c"
    by (simp add: unat_mult_lem [THEN iffD1] l unat_ucast_u8)
  then have quotient: "unat ((word_of_nat len * ucast c :: u64) div word_of_nat len) = unat c"
    using len(1) by (simp add: unat_div l)
  have "(ucast ((word_of_nat len * ucast c :: u64) div word_of_nat len) :: u8)
        = word_of_nat (unat ((word_of_nat len * ucast c :: u64) div word_of_nat len))"
    by simp
  also have "\<dots> = word_of_nat (unat c)"
    by (simp only: quotient)
  also have "\<dots> = c"
    by simp
  finally have "(ucast ((word_of_nat len * ucast c :: u64) div word_of_nat len) :: u8) = c" .
  moreover have "sliding_sums len ps line n j = replicate ps (word_of_nat len * ucast c)"
    by (rule sliding_sums_flat [OF n _ j]) (rule flat)
  ultimately show ?thesis
    by (simp add: sliding_output_def)
qed

theorem box_blur_odd_length_direct_witness:
  "fst (operate_this_time box_blur_3) \<and> odd (filter_length (box_filter box_blur_3))
   \<and> filter_length (box_filter box_blur_3) < 2 ^ 56
   \<and> 0 < getWidth step_column \<and> getWidth step_column < 2 ^ 63
   \<and> 0 < getHeight step_column \<and> getHeight step_column < 2 ^ 63
   \<and> BoxBlurOperation_perform example_class box_blur_3 step_column
       = Inr (Some (direct_box_blur 3 step_column), snd (operate_this_time box_blur_3))"
proof -
  have fires: "fst (operate_this_time box_blur_3)"
    by (simp add: operate_this_time_def draw_def box_blur_3_def constant_generator_def)
  have len: "odd (filter_length (box_filter box_blur_3))"
      "filter_length (box_filter box_blur_3) < 2 ^ 56"
      "filter_length (box_filter box_blur_3) = 3"
    by (simp_all add: box_blur_3_def)
  have dims: "0 < getWidth step_column" "getWidth step_column < 2 ^ 63"
      "0 < getHeight step_column" "getHeight step_column < 2 ^ 63"
    by (simp_all add: step_column_def)
  have lens: "\<forall>x y. x < getWidth step_column \<longrightarrow> y < getHeight step_column
          \<longrightarrow> length (pixel_at step_column (x, y)) = getPixelSize step_column"
    by (simp add: step_column_def)
  have perform: "BoxBlurOperation_perform example_class box_blur_3 step_column
       = Inr (Some (direct_box_blur 3 step_column), snd (operate_this_time box_blur_3))"
    using box_blur_odd_length_direct [OF fires len(1,2) dims lens, of example_class]
    by (simp only: len(3))
  show ?thesis
    using perform fires len(1,2) dims by blast
qed

text \<open>
  A flat field is a fixed point of the box blur, for every kernel length from 1 (below
  \<open>2 ^ 56\<close>), even or odd: when the gate fires on a non-empty image whose pixels
  all hold the value \<open>c\<close> in every channel, perform returns the image unchanged.
\<close>

theorem box_blur_flat_field:
  assumes fires: "fst (operate_this_time op)"
    and len: "0 < filter_length (box_filter op)" "filter_length (box_filter op) < 2 ^ 56"
    and W: "0 < getWidth im" "getWidth im < 2 ^ 64"
    and H: "0 < getHeight im" "getHeight im < 2 ^ 64"
    and flat: "\<forall>x y. x < getWidth im \<longrightarrow> y < getHeight im
                 \<longrightarrow> pixel_at im (x, y) = replicate (getPixelSize im) c"
  shows "BoxBlurOperation_perform I op im = Inr (Some im, snd (operate_this_time op))"
proof -
  let ?len = "filter_length (box_filter op)"
  let ?W = "getWidth im" and ?H = "getHeight im" and ?ps = "getPixelSize im"
  let ?new = "Image_new I ?W ?H ?ps (getColorSpace im)"
  let ?T = "columns_blurred ?len im ?new ?W"
  have nonzero: "word_of_nat ?len \<noteq> (0 :: u64)"
    using len by (rule word_of_nat_nonzero)
  have lens: "?ps \<le> length (pixel_at im (x, y))" if "x < ?W" "y < ?H" for x y
    using flat that by simp
  have passes: "box_blur_passes I ?len im = Inr (rows_blurred ?len ?T im ?H)"
    by (rule box_blur_passes_eq [OF W H len(1) nonzero lens])
  have column: "pixel_at ?T (x, y) = replicate ?ps c" if "x < ?W" "y < ?H" for x y
    using that sliding_output_flat [OF H len, of "\<lambda>y'. pixel_at im (x, y')" ?ps c y] flat
    by (simp add: columns_blurred_def)
  have row: "sliding_output ?len ?ps (\<lambda>x'. pixel_at ?T (x', y)) ?W x = pixel_at im (x, y)"
    if "x < ?W" "y < ?H" for x y
    using that sliding_output_flat [OF W len, of "\<lambda>x'. pixel_at ?T (x', y)" ?ps c x]
      column flat
    by simp
  have "(\<lambda>(x, y). if y < ?H \<and> x < ?W
                  then sliding_output ?len ?ps (\<lambda>x'. pixel_at ?T (x', y)) ?W x
                  else pixel_at im (x, y)) = pixel_at im"
    using row by (auto simp: fun_eq_iff)
  then have "rows_blurred ?len ?T im ?H = im"
    by (simp add: rows_blurred_def)
  with passes show ?thesis
    using fires by (simp add: BoxBlurOperation_perform_def split_beta gate_state)
qed

theorem box_blur_flat_field_witness:
  "fst (operate_this_time box_blur_3)
   \<and> 0 < filter_length (box_filter box_blur_3)
   \<and> filter_length (box_filter box_blur_3) < 2 ^ 56
   \<and> 0 < getWidth (constant_image 4 4 1 100) \<and> getWidth (constant_image 4 4 1 100) < 2 ^ 64
   \<and> 0 < getHeight (constant_image 4 4 1 100)
   \<and> getHeight (constant_image 4 4 1 100) < 2 ^ 64
   \<and> BoxBlurOperation_perform example_class box_blur_3 (constant_image 4 4 1 100)
       = Inr (Some (constant_image 4 4 1 100), snd (operate_this_time box_blur_3))"
proof -
  have fires: "fst (operate_this_time box_blur_3)"
    by (simp add: operate_this_time_def draw_def box_blur_3_def constant_generator_def)
  have len: "0 < filter_length (box_filter box_blur_3)"
      "filter_length (box_filter box_blur_3) < 2 ^ 56"
    by (simp_all add: box_blur_3_def)
  have dims: "0 < getWidth (constant_image 4 4 1 100)"
      "getWidth (constant_image 4 4 1 100) < 2 ^ 64"
      "0 < getHeight (constant_image 4 4 1 100)"
      "getHeight (constant_image 4 4 1 100) < 2 ^ 64"
    by (simp_all add: constant_image_def)
  have flat: "\<forall>x y. x < getWidth (constant_image 4 4 1 100)
          \<longrightarrow> y < getHeight (constant_image 4 4 1 100)
          \<longrightarrow> pixel_at (constant_image 4 4 1 100) (x, y)
              = replicate (getPixelSize (constant_image 4 4 1 100)) 100"
    by (simp add: constant_image_def)
  show ?thesis
    using box_blur_flat_field [OF fires len dims flat, of example_class] fires len dims
    by blast
qed

end
